theory Spec2Isabelle
  imports Main
begin

section \<open>Values exchanged with the server\<close>

text \<open>
  The harness (\<^verbatim>\<open>comprehensive-test.py\<close>) reads one line per request and hands it to
  \<^verbatim>\<open>json.loads\<close>. What comes back is a Python value built from dictionaries, lists,
  strings, numbers, booleans and \<^verbatim>\<open>None\<close>. A dictionary is kept as an association list
  and looked up with \<open>map_of\<close>. Numbers are kept as integers: the harness only ever asks a
  number whether it is zero.
\<close>

datatype json =
    JNull
  | JBool bool
  | JNum int
  | JStr string
  | JArr "json list"
  | JObj "(string \<times> json) list"

text \<open>The exceptions that the harness can meet. \<open>SystemExit\<close> carries the exit code.\<close>

datatype exn = TypeError | KeyError | AttributeError | SystemExit nat

subsection \<open>The Python operators the harness applies to a parsed value\<close>

text \<open>\<^verbatim>\<open>bool(x)\<close>, as used by \<^verbatim>\<open>not x\<close>.\<close>

fun truthy :: "json \<Rightarrow> bool" where
  "truthy JNull = False"
| "truthy (JBool b) = b"
| "truthy (JNum n) = (n \<noteq> 0)"
| "truthy (JStr s) = (s \<noteq> [])"
| "truthy (JArr xs) = (xs \<noteq> [])"
| "truthy (JObj kvs) = (kvs \<noteq> [])"

fun starts_with :: "string \<Rightarrow> string \<Rightarrow> bool" where
  "starts_with [] ys = True"
| "starts_with (x # xs) [] = False"
| "starts_with (x # xs) (y # ys) = (x = y \<and> starts_with xs ys)"

fun contains_str :: "string \<Rightarrow> string \<Rightarrow> bool" where
  "contains_str xs [] = (xs = [])"
| "contains_str xs (y # ys) = (starts_with xs (y # ys) \<or> contains_str xs ys)"

text \<open>
  \<^verbatim>\<open>key in x\<close> for a string \<open>key\<close>: key membership on a dictionary, element membership
  on a list, substring test on a string, \<open>TypeError\<close> on anything else.
\<close>

fun py_contains :: "string \<Rightarrow> json \<Rightarrow> exn + bool" where
  "py_contains k (JObj kvs) = Inr (map_of kvs k \<noteq> None)"
| "py_contains k (JArr xs) = Inr (JStr k \<in> set xs)"
| "py_contains k (JStr s) = Inr (contains_str k s)"
| "py_contains k JNull = Inl TypeError"
| "py_contains k (JBool b) = Inl TypeError"
| "py_contains k (JNum n) = Inl TypeError"

text \<open>\<^verbatim>\<open>x[key]\<close> for a string \<open>key\<close>.\<close>

fun py_getitem :: "json \<Rightarrow> string \<Rightarrow> exn + json" where
  "py_getitem (JObj kvs) k = (case map_of kvs k of None \<Rightarrow> Inl KeyError | Some v \<Rightarrow> Inr v)"
| "py_getitem (JArr xs) k = Inl TypeError"
| "py_getitem (JStr s) k = Inl TypeError"
| "py_getitem JNull k = Inl TypeError"
| "py_getitem (JBool b) k = Inl TypeError"
| "py_getitem (JNum n) k = Inl TypeError"

text \<open>\<^verbatim>\<open>x.get(key, default)\<close>: only a dictionary has the method.\<close>

fun py_get :: "json \<Rightarrow> string \<Rightarrow> json \<Rightarrow> exn + json" where
  "py_get (JObj kvs) k d = (case map_of kvs k of None \<Rightarrow> Inr d | Some v \<Rightarrow> Inr v)"
| "py_get (JArr xs) k d = Inl AttributeError"
| "py_get (JStr s) k d = Inl AttributeError"
| "py_get JNull k d = Inl AttributeError"
| "py_get (JBool b) k d = Inl AttributeError"
| "py_get (JNum n) k d = Inl AttributeError"

text \<open>\<^verbatim>\<open>len(x)\<close>.\<close>

fun py_len :: "json \<Rightarrow> exn + nat" where
  "py_len (JObj kvs) = Inr (length kvs)"
| "py_len (JArr xs) = Inr (length xs)"
| "py_len (JStr s) = Inr (length s)"
| "py_len JNull = Inl TypeError"
| "py_len (JBool b) = Inl TypeError"
| "py_len (JNum n) = Inl TypeError"

text \<open>The elements that \<^verbatim>\<open>for tool in x\<close> visits.\<close>

fun py_iter :: "json \<Rightarrow> exn + json list" where
  "py_iter (JArr xs) = Inr xs"
| "py_iter (JStr s) = Inr (map (\<lambda>c. JStr [c]) s)"
| "py_iter (JObj kvs) = Inr (map (\<lambda>kv. JStr (fst kv)) kvs)"
| "py_iter JNull = Inl TypeError"
| "py_iter (JBool b) = Inl TypeError"
| "py_iter (JNum n) = Inl TypeError"

text \<open>\<^verbatim>\<open>[tool["name"] for tool in tools]\<close>: the first element that raises ends the comprehension.\<close>

fun names_of :: "json list \<Rightarrow> exn + json list" where
  "names_of [] = Inr []"
| "names_of (t # ts) =
     (case py_getitem t ''name'' of
        Inl e \<Rightarrow> Inl e
      | Inr n \<Rightarrow> (case names_of ts of Inl e \<Rightarrow> Inl e | Inr ns \<Rightarrow> Inr (n # ns)))"

section \<open>The harness state and what it prints\<close>

datatype msg =
    JarNotFound
  | RunMvnFirst
  | ServerFailedToStart string
  | ServerStarted
  | FailedToStartServer
  | ServerStopped
  | RequestFailed
  | TestingInitialization
  | NoResponseToInitialize
  | InitializeFailed json
  | NoCapabilities
  | InitializationSuccessful
  | TestingToolsListing
  | FailedToListTools
  | MissingTools "string list"
  | FoundTools nat "json list"
  | TestingResourcesListing
  | FailedToListResources
  | NoResourcesFound
  | FoundResources nat
  | TestingToolExecution
  | FailedToExecuteTool
  | NoContent
  | ToolExecutionSuccessful
  | StartingTests
  | Rule
  | TestResults nat nat
  | AllTestsPassed
  | SomeTestsFailed
  | UsageLine nat
  | TestInterrupted

text \<open>
  The trace records, in order, every line printed, the spawning of the child, every request
  line written to the child's input, every call of \<^verbatim>\<open>stop_server\<close> and every signal
  delivered to a live child.
\<close>

datatype event = Print msg | Popen | Write json | Stop_server | Sigterm | Sigkill

text \<open>
  The child process behind \<^verbatim>\<open>self.server_process\<close>. It is running; or it has been sent a
  signal that ends it (a termination request it obeys, or the kill signal) and has not
  exited yet; or it has exited. \<open>obeys_term\<close> says whether it exits on a termination
  request, within the five seconds that \<^verbatim>\<open>wait(timeout=5)\<close> allows. \<open>sigint_in_wait\<close>
  says whether the interrupt signal arrives the next time \<^verbatim>\<open>wait(timeout=5)\<close> blocks on
  this child.
\<close>

datatype proc_status = Running | Exiting | Exited

record proc =
  status :: proc_status
  obeys_term :: bool
  stderr_text :: string
  sigint_in_wait :: bool

text \<open>
  What one request meets: the write raises (broken pipe), \<^verbatim>\<open>readline\<close> returns the empty
  string (stream closed), the line is not JSON, the line parses, or the interrupt signal
  arrives while \<^verbatim>\<open>readline\<close> blocks.
\<close>

datatype reply = WriteFails | Eof | Malformed | Parsed json | Interrupt

record state =
  server_process :: "proc option"
  trace :: "event list"
  script :: "reply list"

definition emit :: "event \<Rightarrow> state \<Rightarrow> state" where
  "emit e s = s\<lparr>trace := trace s @ [e]\<rparr>"

definition init_state :: "reply list \<Rightarrow> state" where
  "init_state rs = \<lparr>server_process = None, trace = [], script = rs\<rparr>"

text \<open>What the launch meets, in the order \<^verbatim>\<open>start_server\<close> asks.\<close>

record launch =
  jar_exists :: bool
  popen_raises :: bool
  sleep_interrupted :: bool
  exited_early :: bool
  child_stderr :: string
  child_obeys_term :: bool
  wait_interrupted :: bool

section \<open>Lifecycle\<close>

text \<open>
  The methods of the process handle that \<^verbatim>\<open>stop_server\<close> calls. \<^verbatim>\<open>terminate()\<close> and
  \<^verbatim>\<open>kill()\<close> poll the child first and send their signal unless it has exited; neither
  waits for it. \<^verbatim>\<open>wait(timeout=5)\<close> returns at once for a child that has exited; otherwise
  it blocks, and then the interrupt signal may arrive, or the child exits and \<^verbatim>\<open>wait\<close>
  returns, or the five seconds pass and \<^verbatim>\<open>wait\<close> raises \<^verbatim>\<open>TimeoutExpired\<close>.
\<close>

definition popen_terminate :: "proc \<Rightarrow> state \<Rightarrow> proc \<times> state" where
  "popen_terminate p s =
     (if status p = Exited then (p, s)
      else ((if status p = Running \<and> obeys_term p then p\<lparr>status := Exiting\<rparr> else p),
            emit Sigterm s))"

definition popen_kill :: "proc \<Rightarrow> state \<Rightarrow> proc \<times> state" where
  "popen_kill p s =
     (if status p = Exited then (p, s) else (p\<lparr>status := Exiting\<rparr>, emit Sigkill s))"

datatype wait_outcome = Returned | TimeoutExpired | Interrupted

definition popen_wait :: "proc \<Rightarrow> wait_outcome" where
  "popen_wait p =
     (if status p = Exited then Returned
      else if sigint_in_wait p then Interrupted
      else if status p = Exiting then Returned
      else TimeoutExpired)"

text \<open>
  \<^verbatim>\<open>stop_server\<close>. The call itself is recorded in the trace. When the interrupt signal
  arrives while \<^verbatim>\<open>wait\<close> blocks, the handler installed by \<^verbatim>\<open>main\<close> runs there: it
  prints, calls \<^verbatim>\<open>stop_server\<close> itself and raises \<^verbatim>\<open>SystemExit(1)\<close>, which leaves the
  interrupted call through its \<^verbatim>\<open>try\<close> statement (that catches \<^verbatim>\<open>TimeoutExpired\<close> only).
\<close>

function stop_server :: "state \<Rightarrow> (exn + unit) \<times> state" where
  "stop_server s =
     (let s0 = emit Stop_server s in
      case server_process s0 of
        None \<Rightarrow> (Inr (), s0)
      | Some p \<Rightarrow>
          (case popen_terminate p s0 of
             (p1, s1) \<Rightarrow>
               if popen_wait p1 = Interrupted then
                 (case stop_server
                         (emit (Print TestInterrupted)
                            (s1\<lparr>server_process := Some (p1\<lparr>sigint_in_wait := False\<rparr>)\<rparr>)) of
                    (r, s2) \<Rightarrow> (Inl (SystemExit 1), s2))
               else if popen_wait p1 = Returned then
                 (Inr (), emit (Print ServerStopped)
                            (s1\<lparr>server_process := Some (p1\<lparr>status := Exited\<rparr>)\<rparr>))
               else
                 (case popen_kill p1 s1 of
                    (p2, s2) \<Rightarrow>
                      (Inr (), emit (Print ServerStopped) (s2\<lparr>server_process := Some p2\<rparr>)))))"
  by pat_completeness auto
termination
  by (relation "measure (\<lambda>s. case server_process s of
                                None \<Rightarrow> 0 | Some p \<Rightarrow> if sigint_in_wait p then 1 else 0)")
     (auto simp: popen_terminate_def popen_wait_def emit_def split: if_splits)

declare stop_server.simps [simp del]

text \<open>
  The handler installed for the interrupt signal: it prints, stops the server and raises
  \<^verbatim>\<open>SystemExit(1)\<close> at the point where the harness was blocked. The signal is taken
  to arrive where the harness blocks: in the settle interval of \<^verbatim>\<open>start_server\<close>, while
  \<^verbatim>\<open>send_request\<close> waits for a reply, and while \<^verbatim>\<open>stop_server\<close> waits for the child.
\<close>

definition signal_handler :: "state \<Rightarrow> exn \<times> state" where
  "signal_handler s =
     (case stop_server (emit (Print TestInterrupted) s) of (r, s1) \<Rightarrow> (SystemExit 1, s1))"

definition start_server :: "launch \<Rightarrow> state \<Rightarrow> (exn + bool) \<times> state" where
  "start_server l s =
     (if \<not> jar_exists l then
        (Inr False, emit (Print RunMvnFirst) (emit (Print JarNotFound) s))
      else if popen_raises l then
        (Inr False, emit (Print FailedToStartServer) s)
      else
        (let p = \<lparr>status = (if exited_early l then Exited else Running),
                  obeys_term = child_obeys_term l, stderr_text = child_stderr l,
                  sigint_in_wait = wait_interrupted l\<rparr>;
             s1 = emit Popen (s\<lparr>server_process := Some p\<rparr>)
         in if sleep_interrupted l then
              (case signal_handler s1 of (e, s2) \<Rightarrow> (Inl e, s2))
            else if status p = Exited then
              (Inr False, emit (Print (ServerFailedToStart (stderr_text p))) s1)
            else
              (Inr True, emit (Print ServerStarted) s1)))"

section \<open>One request, one reply\<close>

text \<open>The next thing the child does; a script that has run out is a closed stream.\<close>

definition next_reply :: "state \<Rightarrow> reply" where
  "next_reply s = (case script s of [] \<Rightarrow> Eof | x # xs \<Rightarrow> x)"

definition send_request :: "json \<Rightarrow> state \<Rightarrow> (exn + json option) \<times> state" where
  "send_request request s =
     (case server_process s of
        None \<Rightarrow> (Inr None, emit (Print RequestFailed) s)
      | Some p \<Rightarrow>
          (let r = next_reply s;
               s0 = s\<lparr>script := tl (script s)\<rparr>
           in case r of
                WriteFails \<Rightarrow> (Inr None, emit (Print RequestFailed) s0)
              | Eof \<Rightarrow> (Inr None, emit (Write request) s0)
              | Malformed \<Rightarrow> (Inr None, emit (Print RequestFailed) (emit (Write request) s0))
              | Parsed j \<Rightarrow> (Inr (Some j), emit (Write request) s0)
              | Interrupt \<Rightarrow>
                  (case signal_handler (emit (Write request) s0) of (e, s1) \<Rightarrow> (Inl e, s1))))"

section \<open>The four test steps\<close>

definition initialize_request :: json where
  "initialize_request =
     JObj [(''jsonrpc'', JStr ''2.0''), (''id'', JNum 1), (''method'', JStr ''initialize''),
           (''params'', JObj
              [(''protocolVersion'', JStr ''2024-11-05''),
               (''capabilities'', JObj [(''tools'', JObj []), (''resources'', JObj [])]),
               (''clientInfo'', JObj [(''name'', JStr ''test-client''),
                                      (''version'', JStr ''1.0.0'')])])]"

definition list_tools_request :: json where
  "list_tools_request =
     JObj [(''jsonrpc'', JStr ''2.0''), (''id'', JNum 2), (''method'', JStr ''tools/list'')]"

definition list_resources_request :: json where
  "list_resources_request =
     JObj [(''jsonrpc'', JStr ''2.0''), (''id'', JNum 3), (''method'', JStr ''resources/list'')]"

definition tool_execution_request :: json where
  "tool_execution_request =
     JObj [(''jsonrpc'', JStr ''2.0''), (''id'', JNum 4), (''method'', JStr ''tools/call''),
           (''params'', JObj [(''name'', JStr ''listDomains'')])]"

definition expected_tools :: "string list" where
  "expected_tools =
     [''listMBeans'', ''getMBeanInfo'', ''getAttribute'', ''setAttribute'', ''listDomains'',
      ''getConnectionInfo'']"

text \<open>
  \<^verbatim>\<open>not response or "result" not in response\<close>, the guard that steps 2 to 4 share, on a
  response that was received; the second operand is evaluated only when the first is false.
\<close>

definition no_result :: "json \<Rightarrow> exn + bool" where
  "no_result r =
     (if \<not> truthy r then Inr True
      else (case py_contains ''result'' r of Inl e \<Rightarrow> Inl e | Inr b \<Rightarrow> Inr (\<not> b)))"

definition check_initialize :: "json option \<Rightarrow> state \<Rightarrow> (exn + bool) \<times> state" where
  "check_initialize response s =
     (case response of
        None \<Rightarrow> (Inr False, emit (Print NoResponseToInitialize) s)
      | Some r \<Rightarrow>
          if \<not> truthy r then (Inr False, emit (Print NoResponseToInitialize) s)
          else
            (case py_contains ''result'' r of
               Inl e \<Rightarrow> (Inl e, s)
             | Inr False \<Rightarrow> (Inr False, emit (Print (InitializeFailed r)) s)
             | Inr True \<Rightarrow>
                 (case py_getitem r ''result'' of
                    Inl e \<Rightarrow> (Inl e, s)
                  | Inr result \<Rightarrow>
                      (case py_contains ''capabilities'' result of
                         Inl e \<Rightarrow> (Inl e, s)
                       | Inr False \<Rightarrow> (Inr False, emit (Print NoCapabilities) s)
                       | Inr True \<Rightarrow> (Inr True, emit (Print InitializationSuccessful) s)))))"

definition test_initialize :: "state \<Rightarrow> (exn + bool) \<times> state" where
  "test_initialize s =
     (case send_request initialize_request (emit (Print TestingInitialization) s) of
        (Inl e, s1) \<Rightarrow> (Inl e, s1)
      | (Inr response, s1) \<Rightarrow> check_initialize response s1)"

definition check_tools :: "json option \<Rightarrow> state \<Rightarrow> (exn + bool) \<times> state" where
  "check_tools response s =
     (case response of
        None \<Rightarrow> (Inr False, emit (Print FailedToListTools) s)
      | Some r \<Rightarrow>
     (case no_result r of
        Inl e \<Rightarrow> (Inl e, s)
      | Inr True \<Rightarrow> (Inr False, emit (Print FailedToListTools) s)
      | Inr False \<Rightarrow>
          (case py_getitem r ''result'' of
             Inl e \<Rightarrow> (Inl e, s)
           | Inr result \<Rightarrow>
               (case py_get result ''tools'' (JArr []) of
                  Inl e \<Rightarrow> (Inl e, s)
                | Inr tools \<Rightarrow>
                    (case py_iter tools of
                       Inl e \<Rightarrow> (Inl e, s)
                     | Inr items \<Rightarrow>
                         (case names_of items of
                            Inl e \<Rightarrow> (Inl e, s)
                          | Inr found_tools \<Rightarrow>
                              (let missing_tools =
                                     filter (\<lambda>tool. JStr tool \<notin> set found_tools) expected_tools
                               in if missing_tools \<noteq> [] then
                                    (Inr False, emit (Print (MissingTools missing_tools)) s)
                                  else
                                    (Inr True,
                                     emit (Print (FoundTools (length items) found_tools)) s))))))))"

definition test_list_tools :: "state \<Rightarrow> (exn + bool) \<times> state" where
  "test_list_tools s =
     (case send_request list_tools_request (emit (Print TestingToolsListing) s) of
        (Inl e, s1) \<Rightarrow> (Inl e, s1)
      | (Inr response, s1) \<Rightarrow> check_tools response s1)"

definition check_resources :: "json option \<Rightarrow> state \<Rightarrow> (exn + bool) \<times> state" where
  "check_resources response s =
     (case response of
        None \<Rightarrow> (Inr False, emit (Print FailedToListResources) s)
      | Some r \<Rightarrow>
     (case no_result r of
        Inl e \<Rightarrow> (Inl e, s)
      | Inr True \<Rightarrow> (Inr False, emit (Print FailedToListResources) s)
      | Inr False \<Rightarrow>
          (case py_getitem r ''result'' of
             Inl e \<Rightarrow> (Inl e, s)
           | Inr result \<Rightarrow>
               (case py_get result ''resources'' (JArr []) of
                  Inl e \<Rightarrow> (Inl e, s)
                | Inr resources \<Rightarrow>
                    (case py_len resources of
                       Inl e \<Rightarrow> (Inl e, s)
                     | Inr n \<Rightarrow>
                         if n = 0 then (Inr False, emit (Print NoResourcesFound) s)
                         else (Inr True, emit (Print (FoundResources n)) s))))))"

definition test_list_resources :: "state \<Rightarrow> (exn + bool) \<times> state" where
  "test_list_resources s =
     (case send_request list_resources_request (emit (Print TestingResourcesListing) s) of
        (Inl e, s1) \<Rightarrow> (Inl e, s1)
      | (Inr response, s1) \<Rightarrow> check_resources response s1)"

definition check_tool_execution :: "json option \<Rightarrow> state \<Rightarrow> (exn + bool) \<times> state" where
  "check_tool_execution response s =
     (case response of
        None \<Rightarrow> (Inr False, emit (Print FailedToExecuteTool) s)
      | Some r \<Rightarrow>
     (case no_result r of
        Inl e \<Rightarrow> (Inl e, s)
      | Inr True \<Rightarrow> (Inr False, emit (Print FailedToExecuteTool) s)
      | Inr False \<Rightarrow>
          (case py_getitem r ''result'' of
             Inl e \<Rightarrow> (Inl e, s)
           | Inr result \<Rightarrow>
               (case py_get result ''content'' (JArr []) of
                  Inl e \<Rightarrow> (Inl e, s)
                | Inr content \<Rightarrow>
                    if \<not> truthy content then (Inr False, emit (Print NoContent) s)
                    else (Inr True, emit (Print ToolExecutionSuccessful) s)))))"

definition test_tool_execution :: "state \<Rightarrow> (exn + bool) \<times> state" where
  "test_tool_execution s =
     (case send_request tool_execution_request (emit (Print TestingToolExecution) s) of
        (Inl e, s1) \<Rightarrow> (Inl e, s1)
      | (Inr response, s1) \<Rightarrow> check_tool_execution response s1)"

section \<open>The sequencer and the entry point\<close>

type_synonym step = "state \<Rightarrow> (exn + bool) \<times> state"

definition tests :: "step list" where
  "tests = [test_initialize, test_list_tools, test_list_resources, test_tool_execution]"

text \<open>
  The \<^verbatim>\<open>for test in tests\<close> loop: a passing step adds one to \<open>passed\<close>, a failing step
  breaks out, an exception leaves the loop with the exception.
\<close>

fun run_tests :: "step list \<Rightarrow> nat \<Rightarrow> state \<Rightarrow> (exn + nat) \<times> state" where
  "run_tests [] passed s = (Inr passed, s)"
| "run_tests (t # ts) passed s =
     (case t s of
        (Inl e, s1) \<Rightarrow> (Inl e, s1)
      | (Inr True, s1) \<Rightarrow> run_tests ts (passed + 1) s1
      | (Inr False, s1) \<Rightarrow> (Inr passed, s1))"

text \<open>The body of the \<^verbatim>\<open>try\<close> block of \<^verbatim>\<open>run_all_tests\<close>.\<close>

definition run_body :: "step list \<Rightarrow> state \<Rightarrow> (exn + bool) \<times> state" where
  "run_body ts s =
     (let total = length ts in
      case run_tests ts 0 s of
        (Inl e, s1) \<Rightarrow> (Inl e, s1)
      | (Inr passed, s1) \<Rightarrow>
          (let s2 = emit (Print (TestResults passed total)) (emit (Print Rule) s1)
           in if passed = total then (Inr True, emit (Print AllTestsPassed) s2)
              else (Inr False, emit (Print SomeTestsFailed) s2)))"

text \<open>
  \<^verbatim>\<open>run_all_tests\<close>: a failed start returns before the \<^verbatim>\<open>try\<close> block is entered; once
  inside it, the \<^verbatim>\<open>finally\<close> clause runs \<^verbatim>\<open>stop_server\<close> whether the body returned or
  raised, and an exception raised in \<^verbatim>\<open>stop_server\<close> replaces the outcome of the body.
\<close>

definition run_all_tests :: "launch \<Rightarrow> state \<Rightarrow> (exn + bool) \<times> state" where
  "run_all_tests l s =
     (case start_server l (emit (Print Rule) (emit (Print StartingTests) s)) of
        (Inl e, s1) \<Rightarrow> (Inl e, s1)
      | (Inr False, s1) \<Rightarrow> (Inr False, s1)
      | (Inr True, s1) \<Rightarrow>
          (case run_body tests s1 of
             (r, s2) \<Rightarrow>
               (case stop_server s2 of
                  (Inl e, s3) \<Rightarrow> (Inl e, s3)
                | (Inr u, s3) \<Rightarrow> (r, s3))))"

definition usage :: "event list" where
  "usage = map (\<lambda>i. Print (UsageLine i)) [0 ..< 7]"

text \<open>
  \<^verbatim>\<open>main\<close>, given \<^verbatim>\<open>sys.argv\<close>, what the launch meets and the replies of the server. The
  result is the exit status of the process and the final state: \<^verbatim>\<open>return\<close> from \<^verbatim>\<open>main\<close>
  ends the interpreter with status 0, \<^verbatim>\<open>sys.exit(n)\<close> with \<open>n\<close>, any other uncaught exception
  with status 1.
\<close>

definition main :: "string list \<Rightarrow> launch \<Rightarrow> reply list \<Rightarrow> nat \<times> state" where
  "main argv l rs =
     (let s = init_state rs in
      if length argv > 1 \<and> argv ! 1 = ''--help'' then
        (0, s\<lparr>trace := trace s @ usage\<rparr>)
      else
        (case run_all_tests l s of
           (Inl (SystemExit n), s1) \<Rightarrow> (n, s1)
         | (Inl e, s1) \<Rightarrow> (1, s1)
         | (Inr success, s1) \<Rightarrow> ((if success then 0 else 1), s1)))"

text \<open>A state in which the child has been spawned and is running, for concrete runs.\<close>

definition running :: "reply list \<Rightarrow> state" where
  "running rs =
     \<lparr>server_process =
        Some \<lparr>status = Running, obeys_term = True, stderr_text = [], sigint_in_wait = False\<rparr>,
      trace = [], script = rs\<rparr>"

text \<open>The same with a child that ignores the termination request.\<close>

definition stubborn :: state where
  "stubborn =
     \<lparr>server_process =
        Some \<lparr>status = Running, obeys_term = False, stderr_text = [], sigint_in_wait = False\<rparr>,
      trace = [], script = []\<rparr>"

text \<open>The request lines written to the child so far, and the requests of the four steps.\<close>

definition written :: "state \<Rightarrow> json list" where
  "written s = [r. Write r \<leftarrow> trace s]"

definition requests :: "json list" where
  "requests = [initialize_request, list_tools_request, list_resources_request,
               tool_execution_request]"

text \<open>Launch conditions and replies used for concrete runs.\<close>

definition good_launch :: launch where
  "good_launch =
     \<lparr>jar_exists = True, popen_raises = False, sleep_interrupted = False,
      exited_early = False, child_stderr = [], child_obeys_term = True,
      wait_interrupted = False\<rparr>"

definition ok_initialize :: reply where
  "ok_initialize = Parsed (JObj [(''result'', JObj [(''capabilities'', JObj [])])])"

definition ok_tools :: reply where
  "ok_tools =
     Parsed (JObj [(''result'',
       JObj [(''tools'', JArr (map (\<lambda>n. JObj [(''name'', JStr n)]) expected_tools))])])"

definition ok_resources :: reply where
  "ok_resources = Parsed (JObj [(''result'', JObj [(''resources'', JArr [JStr ''r'']) ])])"

definition ok_call :: reply where
  "ok_call = Parsed (JObj [(''result'', JObj [(''content'', JArr [JStr ''c''])])])"

definition no_resources :: reply where
  "no_resources = Parsed (JObj [(''result'', JObj [(''resources'', JArr [])])])"

text \<open>
  The signals delivered so far; whether there is a child that has not exited; whether there
  is a child that runs with no signal pending that ends it; and whether the interrupt
  handler has run.
\<close>

definition signals :: "state \<Rightarrow> event list" where
  "signals s = filter (\<lambda>e. e = Sigterm \<or> e = Sigkill) (trace s)"

definition child_running :: "state \<Rightarrow> bool" where
  "child_running s =
     (case server_process s of None \<Rightarrow> False | Some p \<Rightarrow> status p \<noteq> Exited)"

definition child_undisturbed :: "state \<Rightarrow> bool" where
  "child_undisturbed s =
     (case server_process s of None \<Rightarrow> False | Some p \<Rightarrow> status p = Running)"

definition interrupted :: "state \<Rightarrow> bool" where
  "interrupted s = (Print TestInterrupted \<in> set (trace s))"

text \<open>A state in which the next reply of the server is the line that parses to \<open>j\<close>.\<close>

definition with_reply :: "json \<Rightarrow> state \<Rightarrow> state" where
  "with_reply j s = s\<lparr>script := Parsed j # script s\<rparr>"

text \<open>A response that carries both a result and an error.\<close>

definition both_fields :: json where
  "both_fields =
     JObj [(''result'', JObj [(''capabilities'', JObj [])]),
           (''error'', JObj [(''code'', JNum (-32603)), (''message'', JStr ''Internal error'')])]"

text \<open>The state in which a step checks a reply it has received.\<close>

definition sent :: "msg \<Rightarrow> json \<Rightarrow> state \<Rightarrow> state" where
  "sent m r s = emit (Write r) ((emit (Print m) s)\<lparr>script := tl (script s)\<rparr>)"

text \<open>
  Every step of a list passes, each run in the state its predecessor left; the outcome of the
  launch as \<^verbatim>\<open>run_all_tests\<close> performs it; and a run in which the server started and
  all four steps passed.
\<close>

fun passes :: "step list \<Rightarrow> state \<Rightarrow> bool" where
  "passes [] s = True"
| "passes (t # ts) s = (case t s of (Inr True, s1) \<Rightarrow> passes ts s1 | _ \<Rightarrow> False)"

definition started :: "launch \<Rightarrow> reply list \<Rightarrow> (exn + bool) \<times> state" where
  "started l rs = start_server l (emit (Print Rule) (emit (Print StartingTests) (init_state rs)))"

definition every_step_passed :: "launch \<Rightarrow> reply list \<Rightarrow> bool" where
  "every_step_passed l rs =
     (case started l rs of (Inr True, s1) \<Rightarrow> passes tests s1 | _ \<Rightarrow> False)"

text \<open>
  What a call of \<^verbatim>\<open>stop_server\<close> on a handle adds to the trace and makes of the child, in
  closed form.
\<close>

definition stop_events :: "proc \<Rightarrow> event list" where
  "stop_events p =
     (if status p = Exited then [Stop_server, Print ServerStopped]
      else
        (if sigint_in_wait p then [Stop_server, Sigterm, Print TestInterrupted] else [])
        @ [Stop_server, Sigterm]
        @ (if status p = Exiting \<or> obeys_term p then [] else [Sigkill])
        @ [Print ServerStopped])"

definition stop_proc :: "proc \<Rightarrow> proc" where
  "stop_proc p =
     (if status p = Exited then p
      else p\<lparr>status := (if status p = Exiting \<or> obeys_term p then Exited else Exiting),
             sigint_in_wait := False\<rparr>)"

definition stop_raises :: "proc \<Rightarrow> bool" where
  "stop_raises p = (status p \<noteq> Exited \<and> sigint_in_wait p)"

text \<open>No interrupt is pending for a wait on the child.\<close>

definition quiet :: "state \<Rightarrow> bool" where
  "quiet s = (case server_process s of None \<Rightarrow> True | Some p \<Rightarrow> \<not> sigint_in_wait p)"

text \<open>The second state has the handle of the first, and the handler has run in it only if
  it had run in the first.\<close>

definition untouched :: "state \<Rightarrow> state \<Rightarrow> bool" where
  "untouched s s' = (server_process s' = server_process s \<and> interrupted s' = interrupted s)"

text \<open>A launch in which the interrupt arrives while the cleanup waits for the child.\<close>

definition late_interrupt :: launch where
  "late_interrupt = good_launch\<lparr>wait_interrupted := True\<rparr>"

section \<open>Basic facts\<close>

lemma emit_simps:
  "script (emit e s) = script s"
  "server_process (emit e s) = server_process s"
  "trace (emit e s) = trace s @ [e]"
  "next_reply (emit e s) = next_reply s"
  by (simp_all add: emit_def next_reply_def)

lemma send_request_no_reply:
  assumes "next_reply s = Eof \<or> next_reply s = Malformed"
  shows "fst (send_request req s) = Inr None"
  using assms by (auto simp: send_request_def Let_def split: option.splits)

lemma check_none:
  "fst (check_initialize None s) = Inr False"
  "fst (check_tools None s) = Inr False"
  "fst (check_resources None s) = Inr False"
  "fst (check_tool_execution None s) = Inr False"
  by (simp_all add: check_initialize_def check_tools_def check_resources_def
      check_tool_execution_def)

lemma steps_fail_without_reply:
  assumes "next_reply s = Eof \<or> next_reply s = Malformed"
  shows "\<forall>t \<in> set tests. fst (t s) = Inr False"
proof -
  have b: "fst (send_request req (emit e s)) = Inr None" for req e
    using assms by (intro send_request_no_reply) (simp add: emit_simps)
  have "fst (test_initialize s) = Inr False"
    using b[of initialize_request "Print TestingInitialization"]
    by (cases "send_request initialize_request (emit (Print TestingInitialization) s)")
       (simp add: test_initialize_def check_none)
  moreover have "fst (test_list_tools s) = Inr False"
    using b[of list_tools_request "Print TestingToolsListing"]
    by (cases "send_request list_tools_request (emit (Print TestingToolsListing) s)")
       (simp add: test_list_tools_def check_none)
  moreover have "fst (test_list_resources s) = Inr False"
    using b[of list_resources_request "Print TestingResourcesListing"]
    by (cases "send_request list_resources_request (emit (Print TestingResourcesListing) s)")
       (simp add: test_list_resources_def check_none)
  moreover have "fst (test_tool_execution s) = Inr False"
    using b[of tool_execution_request "Print TestingToolExecution"]
    by (cases "send_request tool_execution_request (emit (Print TestingToolExecution) s)")
       (simp add: test_tool_execution_def check_none)
  ultimately show ?thesis by (simp add: tests_def)
qed

section \<open>What a call of stop_server does\<close>

text \<open>\<^verbatim>\<open>stop_server\<close> when the interrupt does not arrive during its wait.\<close>

lemma stop_server_no_handle:
  "server_process s = None \<Longrightarrow> stop_server s = (Inr (), emit Stop_server s)"
  by (subst stop_server.simps) (simp add: Let_def emit_simps)

lemma stop_server_exited:
  "server_process s = Some p \<Longrightarrow> status p = Exited \<Longrightarrow>
   stop_server s = (Inr (), emit (Print ServerStopped) (emit Stop_server s))"
  by (subst stop_server.simps)
     (simp add: Let_def emit_simps popen_terminate_def popen_wait_def emit_def)

lemma stop_server_obeyed:
  "server_process s = Some p \<Longrightarrow> status p \<noteq> Exited \<Longrightarrow> \<not> sigint_in_wait p \<Longrightarrow>
   status p = Exiting \<or> obeys_term p \<Longrightarrow>
   stop_server s =
     (Inr (), emit (Print ServerStopped)
        ((emit Sigterm (emit Stop_server s))\<lparr>server_process := Some (p\<lparr>status := Exited\<rparr>)\<rparr>))"
  by (subst stop_server.simps, cases "status p")
     (auto simp: Let_def emit_simps popen_terminate_def popen_wait_def)

lemma stop_server_ignored:
  "server_process s = Some p \<Longrightarrow> status p = Running \<Longrightarrow> \<not> sigint_in_wait p \<Longrightarrow>
   \<not> obeys_term p \<Longrightarrow>
   stop_server s =
     (Inr (), emit (Print ServerStopped)
        ((emit Sigkill (emit Sigterm (emit Stop_server s)))
           \<lparr>server_process := Some (p\<lparr>status := Exiting\<rparr>)\<rparr>))"
  by (subst stop_server.simps)
     (auto simp: Let_def emit_simps popen_terminate_def popen_wait_def popen_kill_def)

lemma stop_server_interrupted:
  "server_process s = Some p \<Longrightarrow> status p \<noteq> Exited \<Longrightarrow> sigint_in_wait p \<Longrightarrow>
   stop_server s =
     (Inl (SystemExit 1),
      snd (stop_server
        (emit (Print TestInterrupted)
           ((snd (popen_terminate p (emit Stop_server s)))
              \<lparr>server_process :=
                 Some ((fst (popen_terminate p (emit Stop_server s)))
                         \<lparr>sigint_in_wait := False\<rparr>)\<rparr>))))"
  by (subst stop_server.simps, cases "status p")
     (auto simp: Let_def emit_simps popen_terminate_def popen_wait_def split: prod.splits)

lemma stop_server_cases:
  obtains (none) "server_process s = None"
  | (exited) p where "server_process s = Some p" "status p = Exited"
  | (obeyed) p where "server_process s = Some p" "status p \<noteq> Exited" "\<not> sigint_in_wait p"
      "status p = Exiting \<or> obeys_term p"
  | (ignored) p where "server_process s = Some p" "status p = Running" "\<not> sigint_in_wait p"
      "\<not> obeys_term p"
  | (interrupted) p where "server_process s = Some p" "status p \<noteq> Exited" "sigint_in_wait p"
proof (cases "server_process s")
  case None
  then show ?thesis by (rule none)
next
  case (Some p)
  then show ?thesis
    using exited[of p] obeyed[of p] ignored[of p] interrupted[of p]
    by (cases "status p") auto
qed

lemma stop_server_eq:
  "stop_server s =
     (case server_process s of
        None \<Rightarrow> (Inr (), emit Stop_server s)
      | Some p \<Rightarrow>
          ((if stop_raises p then Inl (SystemExit 1) else Inr ()),
           s\<lparr>trace := trace s @ stop_events p, server_process := Some (stop_proc p)\<rparr>))"
proof (cases s rule: stop_server_cases)
  case none
  then show ?thesis by (simp add: stop_server_no_handle)
next
  case (exited p)
  then show ?thesis
    by (simp add: stop_server_exited stop_events_def stop_proc_def stop_raises_def emit_def)
next
  case (obeyed p)
  then show ?thesis
    by (simp add: stop_server_obeyed stop_events_def stop_proc_def stop_raises_def emit_def)
next
  case (ignored p)
  then show ?thesis
    by (simp add: stop_server_ignored stop_events_def stop_proc_def stop_raises_def emit_def)
next
  case (interrupted p)
  let ?p1 = "fst (popen_terminate p (emit Stop_server s))"
  let ?q = "?p1\<lparr>sigint_in_wait := False\<rparr>"
  let ?s' = "emit (Print TestInterrupted)
           ((snd (popen_terminate p (emit Stop_server s)))\<lparr>server_process := Some ?q\<rparr>)"
  have q: "server_process ?s' = Some ?q" by (simp add: emit_simps)
  have st: "status ?q = (if status p = Running \<and> obeys_term p then Exiting else status p)"
    using interrupted by (simp add: popen_terminate_def)
  have tr: "trace ?s' = trace s @ [Stop_server, Sigterm, Print TestInterrupted]"
    using interrupted by (simp add: popen_terminate_def emit_def)
  have sc: "script ?s' = script s"
    using interrupted by (simp add: popen_terminate_def emit_def)
  have ob: "obeys_term ?q = obeys_term p" "stderr_text ?q = stderr_text p"
    using interrupted by (simp_all add: popen_terminate_def)
  show ?thesis
  proof (cases "status p = Exiting \<or> obeys_term p")
    case True
    then have "status ?q = Exiting \<or> obeys_term ?q" using st ob by auto
    moreover have "status ?q \<noteq> Exited" using st interrupted by auto
    ultimately have "stop_server ?s' =
     (Inr (), emit (Print ServerStopped)
        ((emit Sigterm (emit Stop_server ?s'))\<lparr>server_process := Some (?q\<lparr>status := Exited\<rparr>)\<rparr>))"
      using q by (intro stop_server_obeyed) simp_all
    then show ?thesis
      using interrupted True tr sc
      by (simp add: stop_server_interrupted stop_events_def stop_proc_def stop_raises_def
          emit_def popen_terminate_def)
  next
    case False
    then have "status p = Running" "\<not> obeys_term p" using interrupted by (cases "status p"; simp)+
    then have "status ?q = Running" "\<not> obeys_term ?q" using st ob by auto
    then have "stop_server ?s' =
     (Inr (), emit (Print ServerStopped)
        ((emit Sigkill (emit Sigterm (emit Stop_server ?s')))
           \<lparr>server_process := Some (?q\<lparr>status := Exiting\<rparr>)\<rparr>))"
      using q by (intro stop_server_ignored) simp_all
    then show ?thesis
      using interrupted False tr sc \<open>status p = Running\<close> \<open>\<not> obeys_term p\<close>
      by (simp add: stop_server_interrupted stop_events_def stop_proc_def stop_raises_def
          emit_def popen_terminate_def)
  qed
qed

lemma signal_handler_eq:
  "signal_handler s = (SystemExit 1, snd (stop_server (emit (Print TestInterrupted) s)))"
  by (simp add: signal_handler_def split: prod.splits)

lemma stop_server_keeps:
  "script (snd (stop_server s)) = script s"
  "(server_process (snd (stop_server s)) = None) = (server_process s = None)"
  "set (trace s) \<subseteq> set (trace (snd (stop_server s)))"
  "Stop_server \<in> set (trace (snd (stop_server s)))"
  by (auto simp: stop_server_eq emit_def stop_events_def split: option.splits)

lemma stop_server_quiet: "quiet s \<Longrightarrow> quiet (snd (stop_server s))"
  by (auto simp: stop_server_eq quiet_def emit_def stop_proc_def split: option.splits)

lemma stop_server_returns: "quiet s \<Longrightarrow> fst (stop_server s) = Inr ()"
  by (auto simp: stop_server_eq quiet_def stop_raises_def split: option.splits)

lemma stop_server_raises:
  "fst (stop_server s) = Inl e \<Longrightarrow> e = SystemExit 1 \<and> interrupted (snd (stop_server s))"
  by (auto simp: stop_server_eq stop_raises_def stop_events_def interrupted_def
      split: option.splits if_splits)

lemma stop_server_not_interrupted:
  "fst (stop_server s) = Inr u \<Longrightarrow> interrupted (snd (stop_server s)) = interrupted s"
  by (auto simp: stop_server_eq stop_raises_def stop_events_def interrupted_def emit_def
      split: option.splits if_splits)

lemma stop_server_disturbs: "\<not> child_undisturbed (snd (stop_server s))"
  by (auto simp: stop_server_eq child_undisturbed_def stop_proc_def emit_def
      split: option.splits)

section \<open>A closed stream or an unparsable line\<close>

text \<open>
  Claim C4. Whichever of the four requests is being made, when the reply stream is closed
  before a line arrives, or the line that arrives is not JSON, \<^verbatim>\<open>send_request\<close> returns
  \<^verbatim>\<open>None\<close> and the step that made the request returns \<^verbatim>\<open>False\<close>: the step fails, and
  no exception leaves it.
\<close>

theorem absent_or_malformed_reply_fails_step:
  assumes "next_reply s = Eof \<or> next_reply s = Malformed"
  shows "fst (send_request req s) = Inr None \<and> (\<forall>t \<in> set tests. fst (t s) = Inr False)"
  using assms send_request_no_reply[of s req] steps_fail_without_reply[of s] by blast

theorem absent_or_malformed_reply_fails_step_witness:
  "(next_reply (running [Malformed]) = Eof \<or> next_reply (running [Malformed]) = Malformed)
   \<and> fst (send_request list_tools_request (running [Malformed])) = Inr None
   \<and> fst (test_initialize (running [Malformed])) = Inr False
   \<and> fst (test_list_tools (running [Malformed])) = Inr False
   \<and> fst (test_list_resources (running [Malformed])) = Inr False
   \<and> fst (test_tool_execution (running [Malformed])) = Inr False"
proof -
  have h: "next_reply (running [Malformed]) = Eof \<or> next_reply (running [Malformed]) = Malformed"
    by (simp add: next_reply_def running_def)
  show ?thesis
    using h absent_or_malformed_reply_fails_step [OF h, of list_tools_request]
    by (simp add: tests_def)
qed

section \<open>What the steps write, and when the loop stops\<close>

lemma written_emit:
  "written (emit (Write r) s) = written s @ [r]"
  "written (emit (Print m) s) = written s"
  "written (emit Popen s) = written s"
  "written (emit Stop_server s) = written s"
  "written (emit Sigterm s) = written s"
  "written (emit Sigkill s) = written s"
  by (simp_all add: written_def emit_def)

lemma written_upd:
  "written (s\<lparr>script := x\<rparr>) = written s"
  "written (s\<lparr>server_process := y\<rparr>) = written s"
  by (simp_all add: written_def)

lemma written_stop_server: "written (snd (stop_server s)) = written s"
  by (auto simp: stop_server_eq written_def emit_def stop_events_def split: option.splits)

lemma written_signal_handler: "written (snd (signal_handler s)) = written s"
  by (simp add: signal_handler_eq written_stop_server written_emit)

lemma written_send_request:
  "set (written (snd (send_request r s))) \<subseteq> insert r (set (written s))"
  by (auto simp: send_request_def Let_def written_emit written_upd signal_handler_eq
      written_stop_server
      split: option.splits reply.splits prod.splits)

lemma snd_check:
  "written (snd (check_initialize x s)) = written s"
  "written (snd (check_tools x s)) = written s"
  "written (snd (check_resources x s)) = written s"
  "written (snd (check_tool_execution x s)) = written s"
  by (simp_all add: check_initialize_def check_tools_def check_resources_def
      check_tool_execution_def written_emit Let_def
      split: option.splits sum.splits bool.splits)

lemma written_steps:
  "set (written (snd (test_initialize s))) \<subseteq> insert initialize_request (set (written s))"
  "set (written (snd (test_list_tools s))) \<subseteq> insert list_tools_request (set (written s))"
  "set (written (snd (test_list_resources s))) \<subseteq> insert list_resources_request (set (written s))"
  "set (written (snd (test_tool_execution s))) \<subseteq> insert tool_execution_request (set (written s))"
proof -
  show "set (written (snd (test_initialize s))) \<subseteq> insert initialize_request (set (written s))"
    using written_send_request[of initialize_request "emit (Print TestingInitialization) s"]
    by (auto simp: test_initialize_def snd_check written_emit split: prod.splits sum.splits)
  show "set (written (snd (test_list_tools s))) \<subseteq> insert list_tools_request (set (written s))"
    using written_send_request[of list_tools_request "emit (Print TestingToolsListing) s"]
    by (auto simp: test_list_tools_def snd_check written_emit split: prod.splits sum.splits)
  show "set (written (snd (test_list_resources s))) \<subseteq> insert list_resources_request (set (written s))"
    using written_send_request[of list_resources_request "emit (Print TestingResourcesListing) s"]
    by (auto simp: test_list_resources_def snd_check written_emit split: prod.splits sum.splits)
  show "set (written (snd (test_tool_execution s))) \<subseteq> insert tool_execution_request (set (written s))"
    using written_send_request[of tool_execution_request "emit (Print TestingToolExecution) s"]
    by (auto simp: test_tool_execution_def snd_check written_emit split: prod.splits sum.splits)
qed

lemma run_tests_stops:
  "n < length ts \<Longrightarrow> run_tests (take n ts) k s = (Inr (k + n), sn) \<Longrightarrow>
   fst ((ts ! n) sn) = Inr False \<Longrightarrow>
   run_tests ts k s = (Inr (k + n), snd ((ts ! n) sn))"
proof (induction ts arbitrary: n k s)
  case Nil
  then show ?case by simp
next
  case (Cons t ts)
  show ?case
  proof (cases n)
    case 0
    with Cons.prems show ?thesis
      by (cases "t s") (auto split: sum.splits bool.splits)
  next
    case (Suc m)
    with Cons.prems obtain s1 where t: "t s = (Inr True, s1)"
      and r: "run_tests (take m ts) (k + 1) s1 = (Inr (k + 1 + m), sn)"
      by (cases "t s") (auto split: sum.splits bool.splits)
    from Cons.IH[of m "k + 1" s1] Cons.prems Suc r
    have "run_tests ts (k + 1) s1 = (Inr (k + 1 + m), snd ((ts ! m) sn))" by simp
    with t Suc show ?thesis by simp
  qed
qed

lemma run_tests_written:
  "length ts = length rs \<Longrightarrow>
   (\<forall>i < length ts. \<forall>s. set (written (snd ((ts ! i) s))) \<subseteq> insert (rs ! i) (set (written s))) \<Longrightarrow>
   set (written (snd (run_tests ts k s))) \<subseteq> set (written s) \<union> set rs"
proof (induction ts arbitrary: rs k s)
  case Nil
  then show ?case by simp
next
  case (Cons t ts)
  then obtain r rs' where rs: "rs = r # rs'" by (cases rs) auto
  from Cons.prems(2) rs have h0: "set (written (snd (t s))) \<subseteq> insert r (set (written s))" for s
    by (metis length_greater_0_conv list.distinct(1) nth_Cons_0)
  from Cons.prems(2) rs
  have hs: "\<forall>i < length ts. \<forall>s. set (written (snd ((ts ! i) s))) \<subseteq> insert (rs' ! i) (set (written s))"
    by (metis Suc_less_eq length_Cons nth_Cons_Suc)
  have ih: "set (written (snd (run_tests ts k' s'))) \<subseteq> set (written s') \<union> set rs'" for k' s'
    using Cons.IH[of rs' k' s'] Cons.prems(1) rs hs by simp
  show ?case
  proof (cases "t s")
    case (Pair a s1)
    with h0[of s] have w1: "set (written s1) \<subseteq> insert r (set (written s))" by simp
    show ?thesis
      using Pair w1 ih[of "k + 1" s1] rs
      by (cases a) (auto split: bool.splits)
  qed
qed

lemma distinct_requests: "distinct requests"
  by (simp add: requests_def initialize_request_def list_tools_request_def
      list_resources_request_def tool_execution_request_def)

lemma tests_written:
  "\<forall>i < length tests. \<forall>s. set (written (snd ((tests ! i) s))) \<subseteq> insert (requests ! i) (set (written s))"
proof (intro allI impI)
  fix i s assume "i < length tests"
  then have "i = 0 \<or> i = 1 \<or> i = 2 \<or> i = 3" by (auto simp: tests_def)
  then show "set (written (snd ((tests ! i) s))) \<subseteq> insert (requests ! i) (set (written s))"
    using written_steps[of s] by (elim disjE) (simp_all add: tests_def requests_def)
qed

text \<open>
  Claim C1. The sequencer stops at the first failing step. When the first \<open>n\<close> steps of
  the fixed sequence (initialize, list tools, list resources, invoke tool) have passed and
  step \<open>n + 1\<close> returns failure, the loop ends in the state that this step left, with
  \<open>n\<close> steps counted as passed: no later step is executed, and the request of no later
  step is written to the server.
\<close>

theorem sequencer_stops_at_first_failure:
  assumes "n < length tests"
    and "run_tests (take n tests) 0 s = (Inr n, sn)"
    and "fst ((tests ! n) sn) = Inr False"
  shows "run_tests tests 0 s = (Inr n, snd ((tests ! n) sn)) \<and>
         (\<forall>j. n < j \<and> j < length tests \<and> requests ! j \<notin> set (written s) \<longrightarrow>
              requests ! j \<notin> set (written (snd (run_tests tests 0 s))))"
proof -
  have len: "length tests = length requests" by (simp add: tests_def requests_def)
  have stop: "run_tests tests 0 s = (Inr n, snd ((tests ! n) sn))"
    using run_tests_stops[of n tests 0 s sn] assms by simp
  have "set (written (snd (run_tests (take n tests) 0 s))) \<subseteq> set (written s) \<union> set (take n requests)"
    using tests_written len by (intro run_tests_written) auto
  then have wn: "set (written sn) \<subseteq> set (written s) \<union> set (take n requests)"
    using assms(2) by simp
  have "set (written (snd ((tests ! n) sn))) \<subseteq> insert (requests ! n) (set (written sn))"
    using tests_written assms(1) by blast
  with wn have wf: "set (written (snd ((tests ! n) sn))) \<subseteq> set (written s) \<union> set (take (Suc n) requests)"
    using assms(1) len by (auto simp: take_Suc_conv_app_nth)
  have "requests ! j \<notin> set (take (Suc n) requests)" if "n < j" "j < length tests" for j
  proof
    assume "requests ! j \<in> set (take (Suc n) requests)"
    then obtain i where "i < Suc n" "i < length requests" "requests ! i = requests ! j"
      by (auto simp: in_set_conv_nth)
    with distinct_requests that len show False
      by (auto simp: nth_eq_iff_index_eq)
  qed
  with wf stop show ?thesis by auto
qed

theorem sequencer_stops_at_first_failure_witness:
  "(1::nat) < length tests \<and>
   run_tests (take 1 tests) 0
     (running [Parsed (JObj [(''result'', JObj [(''capabilities'', JObj [])])]), Eof]) =
     (Inr 1, snd (test_initialize
        (running [Parsed (JObj [(''result'', JObj [(''capabilities'', JObj [])])]), Eof]))) \<and>
   fst (run_tests tests 0
     (running [Parsed (JObj [(''result'', JObj [(''capabilities'', JObj [])])]), Eof])) = Inr 1 \<and>
   requests ! 2 \<notin> set (written (snd (run_tests tests 0
     (running [Parsed (JObj [(''result'', JObj [(''capabilities'', JObj [])])]), Eof]))))"
proof -
  let ?s = "running [Parsed (JObj [(''result'', JObj [(''capabilities'', JObj [])])]), Eof]"
  let ?s1 = "snd (test_initialize ?s)"
  have t1: "fst (test_initialize ?s) = Inr True"
    by (simp add: test_initialize_def send_request_def running_def emit_def next_reply_def
        check_initialize_def Let_def)
  have h1: "(1::nat) < length tests" by (simp add: tests_def)
  have h2: "run_tests (take 1 tests) 0 ?s = (Inr 1, ?s1)"
    using t1 by (cases "test_initialize ?s") (simp add: tests_def)
  have nr: "next_reply ?s1 = Eof"
    by (simp add: test_initialize_def send_request_def running_def emit_def next_reply_def
        check_initialize_def Let_def)
  have h3: "fst ((tests ! 1) ?s1) = Inr False"
    using steps_fail_without_reply[of ?s1] nr by (simp add: tests_def)
  have w: "requests ! 2 \<notin> set (written ?s)" by (simp add: written_def running_def)
  have h4: "(1::nat) < 2 \<and> 2 < length tests \<and> requests ! 2 \<notin> set (written ?s)"
    using w by (simp add: tests_def)
  note r = sequencer_stops_at_first_failure[OF h1 h2 h3]
  from r have a: "fst (run_tests tests 0 ?s) = Inr 1" by simp
  from r h4 have b: "requests ! 2 \<notin> set (written (snd (run_tests tests 0 ?s)))" by blast
  show ?thesis using h1 h2 a b by blast
qed

section \<open>A tools listing without a tools field\<close>

lemma send_request_parsed:
  assumes "server_process s \<noteq> None" and "next_reply s = Parsed j"
  shows "send_request req s = (Inr (Some j), emit (Write req) (s\<lparr>script := tl (script s)\<rparr>))"
  using assms by (auto simp: send_request_def Let_def split: option.splits)

lemma obj_with_result:
  assumes "map_of kvs ''result'' = Some v"
  shows "no_result (JObj kvs) = Inr False" and "py_getitem (JObj kvs) ''result'' = Inr v"
  using assms by (auto simp: no_result_def)

lemma py_get_not_object: "(\<forall>res. j \<noteq> JObj res) \<Longrightarrow> py_get j k d = Inl AttributeError"
  by (cases j) simp_all

text \<open>
  Claim C10 says that step 2 does not crash whenever the result of the \<^verbatim>\<open>tools/list\<close>
  reply lacks a tools field. A result that is \<^verbatim>\<open>null\<close> lacks the field, and on it
  \<^verbatim>\<open>response["result"].get\<close> raises \<^verbatim>\<open>AttributeError\<close>, which nothing in the step catches.
\<close>

theorem absent_tools_field_counterexample:
  "fst (test_list_tools (running [Parsed (JObj [(''result'', JNull)])])) = Inl AttributeError"
  by (simp add: test_list_tools_def send_request_def running_def next_reply_def emit_def
      check_tools_def no_result_def Let_def)

text \<open>
  Claim C10, amended. When the reply to \<^verbatim>\<open>tools/list\<close> carries a result that is an object
  without a \<^verbatim>\<open>tools\<close> field, step 2 raises nothing: the missing field reads as the empty
  list, all six required names are found missing, and the step fails after printing the
  message that lists the six of them. When the result is not an object, the step raises
  \<^verbatim>\<open>AttributeError\<close> instead of returning.
\<close>

theorem absent_tools_field_reports_all_missing:
  assumes "server_process s \<noteq> None"
    and "next_reply s = Parsed (JObj kvs)"
    and "map_of kvs ''result'' = Some result"
  shows "(\<forall>res. result = JObj res \<and> map_of res ''tools'' = None \<longrightarrow>
           test_list_tools s =
             (Inr False,
              emit (Print (MissingTools [''listMBeans'', ''getMBeanInfo'', ''getAttribute'',
                                         ''setAttribute'', ''listDomains'',
                                         ''getConnectionInfo'']))
                (emit (Write list_tools_request)
                   ((emit (Print TestingToolsListing) s)\<lparr>script := tl (script s)\<rparr>)))) \<and>
         ((\<forall>res. result \<noteq> JObj res) \<longrightarrow>
           test_list_tools s =
             (Inl AttributeError,
              emit (Write list_tools_request)
                ((emit (Print TestingToolsListing) s)\<lparr>script := tl (script s)\<rparr>)))"
proof -
  let ?s0 = "emit (Print TestingToolsListing) s"
  let ?s1 = "emit (Write list_tools_request) (?s0\<lparr>script := tl (script ?s0)\<rparr>)"
  have sr: "send_request list_tools_request ?s0 = (Inr (Some (JObj kvs)), ?s1)"
    using assms(1,2) by (intro send_request_parsed) (simp_all add: emit_simps)
  have a: "check_tools (Some (JObj kvs)) ?s1 =
      (Inr False, emit (Print (MissingTools expected_tools)) ?s1)"
    if "result = JObj res" "map_of res ''tools'' = None" for res
    using assms(3) that by (simp add: check_tools_def obj_with_result expected_tools_def)
  have b: "check_tools (Some (JObj kvs)) ?s1 = (Inl AttributeError, ?s1)"
    if "\<forall>res. result \<noteq> JObj res"
    using assms(3) py_get_not_object[OF that]
    by (simp add: check_tools_def obj_with_result)
  show ?thesis
    using sr a b by (simp add: test_list_tools_def expected_tools_def emit_simps)
qed

theorem absent_tools_field_reports_all_missing_witness:
  "test_list_tools (running [Parsed (JObj [(''result'', JObj [])])]) =
     (Inr False,
      emit (Print (MissingTools [''listMBeans'', ''getMBeanInfo'', ''getAttribute'',
                                 ''setAttribute'', ''listDomains'', ''getConnectionInfo'']))
        (emit (Write list_tools_request)
           ((emit (Print TestingToolsListing) (running [Parsed (JObj [(''result'', JObj [])])]))
              \<lparr>script := tl (script (running [Parsed (JObj [(''result'', JObj [])])]))\<rparr>))) \<and>
   test_list_tools (running [Parsed (JObj [(''result'', JArr [])])]) =
     (Inl AttributeError,
      emit (Write list_tools_request)
        ((emit (Print TestingToolsListing) (running [Parsed (JObj [(''result'', JArr [])])]))
           \<lparr>script := tl (script (running [Parsed (JObj [(''result'', JArr [])])]))\<rparr>))"
proof -
  let ?s = "running [Parsed (JObj [(''result'', JObj [])])]"
  let ?s' = "running [Parsed (JObj [(''result'', JArr [])])]"
  have h1: "server_process (running rs) \<noteq> None" for rs by (simp add: running_def)
  have h2: "next_reply (running [Parsed j]) = Parsed j" for j
    by (simp add: running_def next_reply_def)
  have h3: "map_of [(''result'', j)] ''result'' = Some j" for j :: json by simp
  have o: "JObj [] = JObj [] \<and> map_of ([] :: (string \<times> json) list) ''tools'' = None" by simp
  have n: "\<forall>res. JArr [] \<noteq> JObj res" by simp
  from absent_tools_field_reports_all_missing
         [OF h1[of "[Parsed (JObj [(''result'', JObj [])])]"] h2[of "JObj [(''result'', JObj [])]"]
             h3[of "JObj []"]] o
  have a: "test_list_tools ?s =
     (Inr False,
      emit (Print (MissingTools [''listMBeans'', ''getMBeanInfo'', ''getAttribute'',
                                 ''setAttribute'', ''listDomains'', ''getConnectionInfo'']))
        (emit (Write list_tools_request)
           ((emit (Print TestingToolsListing) ?s)\<lparr>script := tl (script ?s)\<rparr>)))" by blast
  from absent_tools_field_reports_all_missing
         [OF h1[of "[Parsed (JObj [(''result'', JArr [])])]"] h2[of "JObj [(''result'', JArr [])]"]
             h3[of "JArr []"]] n
  have b: "test_list_tools ?s' =
     (Inl AttributeError,
      emit (Write list_tools_request)
        ((emit (Print TestingToolsListing) ?s')\<lparr>script := tl (script ?s')\<rparr>))" by blast
  show ?thesis using a b by blast
qed

section \<open>An empty resource list\<close>

lemma script_stop_server: "script (snd (stop_server s)) = script s"
  by (rule stop_server_keeps)

lemma script_send_request:
  "server_process s \<noteq> None \<Longrightarrow> script (snd (send_request r s)) = tl (script s)"
  by (auto simp: send_request_def Let_def emit_simps signal_handler_eq script_stop_server
      split: option.splits reply.splits)

lemma script_check:
  "script (snd (check_initialize x s)) = script s"
  "script (snd (check_tools x s)) = script s"
  "script (snd (check_resources x s)) = script s"
  "script (snd (check_tool_execution x s)) = script s"
  by (simp_all add: check_initialize_def check_tools_def check_resources_def
      check_tool_execution_def emit_simps Let_def
      split: option.splits sum.splits bool.splits)

lemma script_steps:
  assumes "server_process s \<noteq> None"
  shows "script (snd (test_initialize s)) = tl (script s)"
    and "script (snd (test_list_tools s)) = tl (script s)"
    and "script (snd (test_list_resources s)) = tl (script s)"
    and "script (snd (test_tool_execution s)) = tl (script s)"
proof -
  have a: "script (snd (send_request r (emit e s))) = tl (script s)" for r e
    using assms script_send_request[of "emit e s" r] by (simp add: emit_simps)
  show "script (snd (test_initialize s)) = tl (script s)"
    using a[of initialize_request "Print TestingInitialization"]
    by (auto simp: test_initialize_def script_check split: prod.splits sum.splits)
  show "script (snd (test_list_tools s)) = tl (script s)"
    using a[of list_tools_request "Print TestingToolsListing"]
    by (auto simp: test_list_tools_def script_check split: prod.splits sum.splits)
  show "script (snd (test_list_resources s)) = tl (script s)"
    using a[of list_resources_request "Print TestingResourcesListing"]
    by (auto simp: test_list_resources_def script_check split: prod.splits sum.splits)
  show "script (snd (test_tool_execution s)) = tl (script s)"
    using a[of tool_execution_request "Print TestingToolExecution"]
    by (auto simp: test_tool_execution_def script_check split: prod.splits sum.splits)
qed

lemma start_server_good:
  "start_server good_launch s =
     (Inr True, emit (Print ServerStarted) (emit Popen
        (s\<lparr>server_process :=
             Some \<lparr>status = Running, obeys_term = True, stderr_text = [],
                   sigint_in_wait = False\<rparr>\<rparr>)))"
  by (simp add: start_server_def good_launch_def Let_def)

lemma initialize_passes:
  assumes "server_process s \<noteq> None" and "next_reply s = ok_initialize"
  shows "fst (test_initialize s) = Inr True"
proof -
  let ?s0 = "emit (Print TestingInitialization) s"
  have "send_request initialize_request ?s0 =
      (Inr (Some (JObj [(''result'', JObj [(''capabilities'', JObj [])])])),
       emit (Write initialize_request) (?s0\<lparr>script := tl (script ?s0)\<rparr>))"
    using assms by (intro send_request_parsed) (simp_all add: emit_simps ok_initialize_def)
  then show ?thesis
    by (simp add: test_initialize_def check_initialize_def)
qed

lemma names_of_ok: "names_of (map (\<lambda>n. JObj [(''name'', JStr n)]) ns) = Inr (map JStr ns)"
  by (induction ns) simp_all

lemma list_tools_passes:
  assumes "server_process s \<noteq> None" and "next_reply s = ok_tools"
  shows "fst (test_list_tools s) = Inr True"
proof -
  let ?s0 = "emit (Print TestingToolsListing) s"
  let ?j = "JObj [(''result'',
       JObj [(''tools'', JArr (map (\<lambda>n. JObj [(''name'', JStr n)]) expected_tools))])]"
  have "send_request list_tools_request ?s0 =
      (Inr (Some ?j), emit (Write list_tools_request) (?s0\<lparr>script := tl (script ?s0)\<rparr>))"
    using assms by (intro send_request_parsed) (simp_all add: emit_simps ok_tools_def)
  moreover have "fst (check_tools (Some ?j) s') = Inr True" for s'
    by (simp add: check_tools_def no_result_def names_of_ok Let_def filter_empty_conv)
  ultimately show ?thesis
    by (simp add: test_list_tools_def)
qed

lemma trace_stop_server: "set (trace s) \<subseteq> set (trace (snd (stop_server s)))"
  by (rule stop_server_keeps)

lemma sp_stop_server:
  "(server_process (snd (stop_server s)) = None) = (server_process s = None)"
  by (rule stop_server_keeps)

lemma sp_send_request:
  "(server_process (snd (send_request r s)) = None) = (server_process s = None)"
proof (cases "server_process s")
  case None
  then show ?thesis by (simp add: send_request_def emit_simps)
next
  case (Some p)
  have "server_process (snd (stop_server (emit e1 (emit e2 (s\<lparr>script := x\<rparr>))))) \<noteq> None"
    for e1 e2 x
    using Some by (simp add: sp_stop_server emit_simps)
  with Some show ?thesis
    by (cases "next_reply s") (simp_all add: send_request_def Let_def emit_simps signal_handler_eq)
qed

lemma sp_check:
  "server_process (snd (check_initialize x s)) = server_process s"
  "server_process (snd (check_tools x s)) = server_process s"
  "server_process (snd (check_resources x s)) = server_process s"
  "server_process (snd (check_tool_execution x s)) = server_process s"
  by (simp_all add: check_initialize_def check_tools_def check_resources_def
      check_tool_execution_def emit_simps Let_def
      split: option.splits sum.splits bool.splits)

lemma sp_steps:
  "(server_process (snd (test_initialize s)) = None) = (server_process s = None)"
  "(server_process (snd (test_list_tools s)) = None) = (server_process s = None)"
  "(server_process (snd (test_list_resources s)) = None) = (server_process s = None)"
  "(server_process (snd (test_tool_execution s)) = None) = (server_process s = None)"
proof -
  show "(server_process (snd (test_initialize s)) = None) = (server_process s = None)"
    using sp_send_request[of initialize_request "emit (Print TestingInitialization) s"]
    by (auto simp: test_initialize_def sp_check emit_simps split: prod.splits sum.splits)
  show "(server_process (snd (test_list_tools s)) = None) = (server_process s = None)"
    using sp_send_request[of list_tools_request "emit (Print TestingToolsListing) s"]
    by (auto simp: test_list_tools_def sp_check emit_simps split: prod.splits sum.splits)
  show "(server_process (snd (test_list_resources s)) = None) = (server_process s = None)"
    using sp_send_request[of list_resources_request "emit (Print TestingResourcesListing) s"]
    by (auto simp: test_list_resources_def sp_check emit_simps split: prod.splits sum.splits)
  show "(server_process (snd (test_tool_execution s)) = None) = (server_process s = None)"
    using sp_send_request[of tool_execution_request "emit (Print TestingToolExecution) s"]
    by (auto simp: test_tool_execution_def sp_check emit_simps split: prod.splits sum.splits)
qed

lemma sp_start_server:
  "start_server l s = (Inr True, s1) \<Longrightarrow> server_process s1 \<noteq> None"
  by (auto simp: start_server_def Let_def emit_def signal_handler_eq
      split: if_splits prod.splits)

lemma empty_resources_fail:
  assumes "server_process s \<noteq> None"
    and "next_reply s = Parsed (JObj kvs)"
    and "map_of kvs ''result'' = Some (JObj res)"
    and "map_of res ''resources'' = Some (JArr [])"
  shows "test_list_resources s =
           (Inr False,
            emit (Print NoResourcesFound)
              (emit (Write list_resources_request)
                 ((emit (Print TestingResourcesListing) s)\<lparr>script := tl (script s)\<rparr>)))"
proof -
  let ?s0 = "emit (Print TestingResourcesListing) s"
  let ?s1 = "emit (Write list_resources_request) (?s0\<lparr>script := tl (script ?s0)\<rparr>)"
  have "send_request list_resources_request ?s0 = (Inr (Some (JObj kvs)), ?s1)"
    using assms(1,2) by (intro send_request_parsed) (simp_all add: emit_simps)
  moreover have "check_resources (Some (JObj kvs)) ?s1 =
      (Inr False, emit (Print NoResourcesFound) ?s1)"
    using assms(3,4) by (simp add: check_resources_def obj_with_result)
  ultimately show ?thesis
    by (simp add: test_list_resources_def emit_simps)
qed

lemma quiet_emit: "quiet (emit e s) = quiet s" "quiet (s\<lparr>script := x\<rparr>) = quiet s"
  by (simp_all add: quiet_def emit_def)

lemma quiet_send_request: "quiet s \<Longrightarrow> quiet (snd (send_request r s))"
  by (auto simp: send_request_def Let_def quiet_emit signal_handler_eq
      intro!: stop_server_quiet split: option.splits reply.splits)

lemma quiet_check:
  "quiet (snd (check_initialize x s)) = quiet s"
  "quiet (snd (check_tools x s)) = quiet s"
  "quiet (snd (check_resources x s)) = quiet s"
  "quiet (snd (check_tool_execution x s)) = quiet s"
  by (simp_all add: check_initialize_def check_tools_def check_resources_def
      check_tool_execution_def quiet_emit Let_def
      split: option.splits sum.splits bool.splits)

lemma quiet_steps:
  assumes "quiet s"
  shows "quiet (snd (test_initialize s))"
    and "quiet (snd (test_list_tools s))"
    and "quiet (snd (test_list_resources s))"
    and "quiet (snd (test_tool_execution s))"
proof -
  have a: "quiet (snd (send_request r (emit e s)))" for r e
    using assms by (intro quiet_send_request) (simp add: quiet_emit)
  show "quiet (snd (test_initialize s))"
    using a[of initialize_request "Print TestingInitialization"]
    by (auto simp: test_initialize_def quiet_check split: prod.splits sum.splits)
  show "quiet (snd (test_list_tools s))"
    using a[of list_tools_request "Print TestingToolsListing"]
    by (auto simp: test_list_tools_def quiet_check split: prod.splits sum.splits)
  show "quiet (snd (test_list_resources s))"
    using a[of list_resources_request "Print TestingResourcesListing"]
    by (auto simp: test_list_resources_def quiet_check split: prod.splits sum.splits)
  show "quiet (snd (test_tool_execution s))"
    using a[of tool_execution_request "Print TestingToolExecution"]
    by (auto simp: test_tool_execution_def quiet_check split: prod.splits sum.splits)
qed

lemma quiet_start_server_good: "quiet (snd (start_server good_launch s))"
  by (simp add: start_server_good quiet_def emit_simps)

text \<open>
  Claim C7. When the server has started, steps 1 and 2 pass and the reply to
  \<^verbatim>\<open>resources/list\<close> carries a result whose resource list is empty, step 3 fails,
  step 4 is not run (nothing of it appears in the trace: the last request written is that
  of step 3) and the tally printed is 2 passed out of 4. \<^verbatim>\<open>run_all_tests\<close> then ends
  with the cleanup, from the state shown.
\<close>

theorem empty_resource_list_two_of_four:
  assumes "start_server l (emit (Print Rule) (emit (Print StartingTests) s)) = (Inr True, s1)"
    and "test_initialize s1 = (Inr True, s2)"
    and "test_list_tools s2 = (Inr True, s3)"
    and "next_reply s3 = Parsed (JObj kvs)"
    and "map_of kvs ''result'' = Some (JObj res)"
    and "map_of res ''resources'' = Some (JArr [])"
  shows "fst (test_list_resources s3) = Inr False \<and>
         run_all_tests l s =
           (case stop_server
                   (emit (Print SomeTestsFailed)
                      (emit (Print (TestResults 2 4))
                         (emit (Print Rule)
                            (emit (Print NoResourcesFound)
                               (emit (Write list_resources_request)
                                  ((emit (Print TestingResourcesListing) s3)
                                     \<lparr>script := tl (script s3)\<rparr>)))))) of
              (Inl e, s4) \<Rightarrow> (Inl e, s4)
            | (Inr u, s4) \<Rightarrow> (Inr False, s4)) \<and>
         Print (TestResults 2 4) \<in> set (trace (snd (run_all_tests l s))) \<and>
         written (snd (run_all_tests l s)) = written s3 @ [list_resources_request]"
proof -
  let ?x = "emit (Print SomeTestsFailed)
                      (emit (Print (TestResults 2 4))
                         (emit (Print Rule)
                            (emit (Print NoResourcesFound)
                               (emit (Write list_resources_request)
                                  ((emit (Print TestingResourcesListing) s3)
                                     \<lparr>script := tl (script s3)\<rparr>)))))"
  have p1: "server_process s1 \<noteq> None" using assms(1) by (rule sp_start_server)
  have p2: "server_process s2 \<noteq> None" using sp_steps(1)[of s1] assms(2) p1 by simp
  have p3: "server_process s3 \<noteq> None" using sp_steps(2)[of s2] assms(3) p2 by simp
  note t3 = empty_resources_fail[OF p3 assms(4,5,6)]
  have len: "length tests = 4" by (simp add: tests_def)
  have "run_tests tests 0 s1 = (Inr 2, snd (test_list_resources s3))"
    using assms(2,3) t3 by (simp add: tests_def)
  then have "run_body tests s1 =
      (Inr False, emit (Print SomeTestsFailed) (emit (Print (TestResults 2 4))
          (emit (Print Rule) (snd (test_list_resources s3)))))"
    by (simp add: run_body_def Let_def len)
  then have r: "run_all_tests l s =
      (case stop_server ?x of (Inl e, s4) \<Rightarrow> (Inl e, s4) | (Inr u, s4) \<Rightarrow> (Inr False, s4))"
    using assms(1) t3 by (simp add: run_all_tests_def)
  then have f: "snd (run_all_tests l s) = snd (stop_server ?x)"
    by (cases "stop_server ?x") (auto split: sum.splits)
  have "Print (TestResults 2 4) \<in> set (trace ?x)" by (simp add: emit_simps)
  then have tally: "Print (TestResults 2 4) \<in> set (trace (snd (run_all_tests l s)))"
    using trace_stop_server[of ?x] f by auto
  have w: "written (snd (run_all_tests l s)) = written s3 @ [list_resources_request]"
    using f by (simp add: written_stop_server written_emit written_upd)
  show ?thesis using t3 r tally w by simp
qed

theorem empty_resource_list_two_of_four_witness:
  "fst (run_all_tests good_launch (init_state [ok_initialize, ok_tools, no_resources, ok_call]))
     = Inr False \<and>
   Print (TestResults 2 4) \<in> set (trace (snd
     (run_all_tests good_launch (init_state [ok_initialize, ok_tools, no_resources, ok_call]))))"
proof -
  let ?s = "init_state [ok_initialize, ok_tools, no_resources, ok_call]"
  let ?sa = "emit (Print Rule) (emit (Print StartingTests) ?s)"
  obtain s1 where h1: "start_server good_launch ?sa = (Inr True, s1)"
    by (simp add: start_server_good)
  have p1: "server_process s1 \<noteq> None" using h1 by (rule sp_start_server)
  have q1: "quiet s1" using quiet_start_server_good[of ?sa] h1 by simp
  have c1: "script s1 = [ok_initialize, ok_tools, no_resources, ok_call]"
    using h1 by (auto simp: start_server_good emit_simps init_state_def)
  have n1: "next_reply s1 = ok_initialize" using c1 by (simp add: next_reply_def)
  obtain s2 where h2: "test_initialize s1 = (Inr True, s2)"
    using initialize_passes[OF p1 n1] by (cases "test_initialize s1") auto
  have p2: "server_process s2 \<noteq> None" using sp_steps(1)[of s1] p1 h2 by simp
  have q2: "quiet s2" using quiet_steps(1)[OF q1] h2 by simp
  have c2: "script s2 = [ok_tools, no_resources, ok_call]"
    using script_steps(1)[OF p1] c1 h2 by simp
  have n2: "next_reply s2 = ok_tools" using c2 by (simp add: next_reply_def)
  obtain s3 where h3: "test_list_tools s2 = (Inr True, s3)"
    using list_tools_passes[OF p2 n2] by (cases "test_list_tools s2") auto
  have q3: "quiet s3" using quiet_steps(2)[OF q2] h3 by simp
  have c3: "script s3 = [no_resources, ok_call]"
    using script_steps(2)[OF p2] c2 h3 by simp
  have h4: "next_reply s3 = Parsed (JObj [(''result'', JObj [(''resources'', JArr [])])])"
    using c3 by (simp add: next_reply_def no_resources_def)
  have h5: "map_of [(''result'', JObj [(''resources'', JArr [])])] ''result''
      = Some (JObj [(''resources'', JArr [])])" by simp
  have h6: "map_of [(''resources'', JArr [])] ''resources'' = Some (JArr [])" by simp
  let ?x = "emit (Print SomeTestsFailed)
                      (emit (Print (TestResults 2 4))
                         (emit (Print Rule)
                            (emit (Print NoResourcesFound)
                               (emit (Write list_resources_request)
                                  ((emit (Print TestingResourcesListing) s3)
                                     \<lparr>script := tl (script s3)\<rparr>)))))"
  note r = empty_resource_list_two_of_four [OF h1 h2 h3 h4 h5 h6]
  have "quiet ?x" using q3 by (simp add: quiet_emit)
  then have "fst (stop_server ?x) = Inr ()" by (rule stop_server_returns)
  with r have a: "fst (run_all_tests good_launch ?s) = Inr False"
    by (cases "stop_server ?x") auto
  from r have b: "Print (TestResults 2 4) \<in> set (trace (snd (run_all_tests good_launch ?s)))"
    by blast
  show ?thesis using a b by blast
qed

section \<open>Stopping the server\<close>

lemma signals_emit:
  "signals (emit (Print m) s) = signals s"
  "signals (emit Stop_server s) = signals s"
  by (simp_all add: signals_def emit_def)

lemma signals_unchanged_without_child:
  assumes "\<not> child_running s"
  shows "fst (stop_server s) = Inr () \<and> signals (snd (stop_server s)) = signals s \<and>
         server_process (snd (stop_server s)) = server_process s"
  using assms
  by (auto simp: stop_server_eq child_running_def stop_raises_def stop_events_def stop_proc_def
      signals_def emit_def split: option.splits)

lemma failed_start_leaves_no_child:
  assumes "\<not> child_running s" and "fst (start_server l s) = Inr False"
  shows "\<not> child_running (snd (start_server l s))"
  using assms
  by (auto simp: start_server_def Let_def child_running_def emit_simps signal_handler_eq
      split: if_splits option.splits)

lemma obedient_child_exits:
  assumes "\<forall>p. server_process s = Some p \<longrightarrow> status p \<noteq> Running \<or> obeys_term p"
  shows "\<not> child_running (snd (stop_server s))"
proof (cases "server_process s")
  case None
  then show ?thesis by (simp add: stop_server_eq child_running_def emit_def)
next
  case (Some p)
  with assms have "status p \<noteq> Running \<or> obeys_term p" by simp
  with Some show ?thesis
    by (cases "status p") (auto simp: stop_server_eq child_running_def stop_proc_def)
qed

lemma killed_if_still_running:
  assumes "child_running (snd (stop_server s))"
  shows "Sigkill \<in> set (trace (snd (stop_server s)))"
  using assms
  by (auto simp: stop_server_eq child_running_def stop_proc_def stop_events_def emit_def
      split: option.splits if_splits)

text \<open>
  Claim C3 says that a second call of \<^verbatim>\<open>stop_server\<close> in succession takes no action on a
  process and that no child is left running after any call. On a child that ignores the
  termination request the first call sends the kill signal and returns without waiting for
  the child, which has then not yet exited; the second call finds it and sends the
  termination request again.
\<close>

theorem stop_server_twice_counterexample:
  "signals (snd (stop_server stubborn)) = [Sigterm, Sigkill] \<and>
   child_running (snd (stop_server stubborn)) \<and>
   signals (snd (stop_server (snd (stop_server stubborn)))) = [Sigterm, Sigkill, Sigterm]"
  by (simp add: stop_server_eq stubborn_def stop_events_def stop_proc_def stop_raises_def
      signals_def child_running_def)

text \<open>
  Claim C3, amended. \<^verbatim>\<open>stop_server\<close> can be called in every state. Without a process
  handle (\<^verbatim>\<open>start_server\<close> never called, or failed before spawning) the call changes
  nothing but the record of the call itself. Whenever the child has exited, and in
  particular after a failed start, the call raises nothing, delivers no signal and leaves
  the process as it is. With no interrupt arriving, two calls in succession raise nothing.
  The second call delivers no signal when the child has exited by the time the first call
  returns, which is so whenever the child obeys the termination request. After any call the
  child has exited or has been sent the kill signal.
\<close>

theorem stop_server_idempotent:
  "(server_process s = None \<longrightarrow> stop_server s = (Inr (), emit Stop_server s)) \<and>
   (\<not> child_running s \<longrightarrow>
      fst (stop_server s) = Inr () \<and>
      signals (snd (stop_server s)) = signals s \<and>
      server_process (snd (stop_server s)) = server_process s) \<and>
   (\<not> child_running s \<and> fst (start_server l s) = Inr False \<longrightarrow>
      fst (stop_server (snd (start_server l s))) = Inr () \<and>
      signals (snd (stop_server (snd (start_server l s)))) = signals (snd (start_server l s)) \<and>
      server_process (snd (stop_server (snd (start_server l s)))) =
        server_process (snd (start_server l s))) \<and>
   (quiet s \<longrightarrow>
      fst (stop_server s) = Inr () \<and> fst (stop_server (snd (stop_server s))) = Inr ()) \<and>
   (\<not> child_running (snd (stop_server s)) \<longrightarrow>
      signals (snd (stop_server (snd (stop_server s)))) = signals (snd (stop_server s)) \<and>
      server_process (snd (stop_server (snd (stop_server s)))) =
        server_process (snd (stop_server s))) \<and>
   ((\<forall>p. server_process s = Some p \<longrightarrow> status p \<noteq> Running \<or> obeys_term p) \<longrightarrow>
      \<not> child_running (snd (stop_server s))) \<and>
   (child_running (snd (stop_server s)) \<longrightarrow> Sigkill \<in> set (trace (snd (stop_server s))))"
proof -
  have c1: "server_process s = None \<longrightarrow> stop_server s = (Inr (), emit Stop_server s)"
    by (simp add: stop_server_no_handle)
  have c2: "\<not> child_running s \<longrightarrow>
      fst (stop_server s) = Inr () \<and>
      signals (snd (stop_server s)) = signals s \<and>
      server_process (snd (stop_server s)) = server_process s"
    using signals_unchanged_without_child by blast
  have c3: "\<not> child_running s \<and> fst (start_server l s) = Inr False \<longrightarrow>
      fst (stop_server (snd (start_server l s))) = Inr () \<and>
      signals (snd (stop_server (snd (start_server l s)))) = signals (snd (start_server l s)) \<and>
      server_process (snd (stop_server (snd (start_server l s)))) =
        server_process (snd (start_server l s))"
    using failed_start_leaves_no_child signals_unchanged_without_child by blast
  have c4: "quiet s \<longrightarrow>
      fst (stop_server s) = Inr () \<and> fst (stop_server (snd (stop_server s))) = Inr ()"
    using stop_server_returns stop_server_quiet by blast
  have c5: "\<not> child_running (snd (stop_server s)) \<longrightarrow>
      signals (snd (stop_server (snd (stop_server s)))) = signals (snd (stop_server s)) \<and>
      server_process (snd (stop_server (snd (stop_server s)))) =
        server_process (snd (stop_server s))"
    using signals_unchanged_without_child by blast
  have c6: "(\<forall>p. server_process s = Some p \<longrightarrow> status p \<noteq> Running \<or> obeys_term p) \<longrightarrow>
      \<not> child_running (snd (stop_server s))"
    using obedient_child_exits by blast
  have c7: "child_running (snd (stop_server s)) \<longrightarrow>
      Sigkill \<in> set (trace (snd (stop_server s)))"
    using killed_if_still_running by blast
  show ?thesis using c1 c2 c3 c4 c5 c6 c7 by blast
qed

theorem stop_server_idempotent_witness:
  "stop_server (init_state []) = (Inr (), emit Stop_server (init_state [])) \<and>
   signals (snd (stop_server (init_state []))) = signals (init_state []) \<and>
   fst (start_server (good_launch\<lparr>exited_early := True\<rparr>) (init_state [])) = Inr False \<and>
   signals (snd (stop_server
       (snd (start_server (good_launch\<lparr>exited_early := True\<rparr>) (init_state [])))))
     = signals (snd (start_server (good_launch\<lparr>exited_early := True\<rparr>) (init_state []))) \<and>
   fst (stop_server (running [])) = Inr () \<and>
   fst (stop_server (snd (stop_server (running [])))) = Inr () \<and>
   signals (snd (stop_server (running []))) = [Sigterm] \<and>
   signals (snd (stop_server (snd (stop_server (running []))))) = [Sigterm] \<and>
   \<not> child_running (snd (stop_server (running []))) \<and>
   child_running (snd (stop_server stubborn)) \<and>
   Sigkill \<in> set (trace (snd (stop_server stubborn)))"
proof -
  let ?l = "good_launch\<lparr>exited_early := True\<rparr>"
  have h1: "server_process (init_state []) = None" by (simp add: init_state_def)
  have h2: "\<not> child_running (init_state []) \<and> fst (start_server ?l (init_state [])) = Inr False"
    by (simp add: child_running_def init_state_def start_server_def good_launch_def Let_def)
  have h3: "quiet (running [])" by (simp add: quiet_def running_def)
  have h4: "\<forall>p. server_process (running []) = Some p \<longrightarrow> status p \<noteq> Running \<or> obeys_term p"
    by (simp add: running_def)
  have h5: "child_running (snd (stop_server stubborn))"
    by (simp add: stop_server_eq stubborn_def stop_proc_def child_running_def)
  have s1: "signals (snd (stop_server (running []))) = [Sigterm]"
    by (simp add: stop_server_eq running_def stop_events_def signals_def)
  note a = stop_server_idempotent[of "init_state []" ?l]
  note b = stop_server_idempotent[of "running []" ?l]
  note c = stop_server_idempotent[of stubborn ?l]
  from a h1 have c1: "stop_server (init_state []) = (Inr (), emit Stop_server (init_state []))"
    by blast
  from a h2 have c2: "signals (snd (stop_server (init_state []))) = signals (init_state [])"
    by blast
  from a h2 have c3: "signals (snd (stop_server (snd (start_server ?l (init_state [])))))
     = signals (snd (start_server ?l (init_state [])))"
    by blast
  from b h3 have c4: "fst (stop_server (running [])) = Inr () \<and>
      fst (stop_server (snd (stop_server (running [])))) = Inr ()"
    by blast
  from b h4 have c5: "\<not> child_running (snd (stop_server (running [])))"
    by blast
  with b s1 have c6: "signals (snd (stop_server (snd (stop_server (running []))))) = [Sigterm]"
    by simp
  from c h5 have c7: "Sigkill \<in> set (trace (snd (stop_server stubborn)))"
    by blast
  show ?thesis using c1 c2 h2 c3 c4 s1 c6 c5 h5 c7 by blast
qed

section \<open>The command line\<close>

lemma written_step_parsed:
  assumes "server_process s \<noteq> None" and "next_reply s = Parsed j"
  shows "written (snd (test_initialize s)) = written s @ [initialize_request]"
    and "written (snd (test_list_tools s)) = written s @ [list_tools_request]"
    and "written (snd (test_list_resources s)) = written s @ [list_resources_request]"
    and "written (snd (test_tool_execution s)) = written s @ [tool_execution_request]"
proof -
  have a: "send_request r (emit e s) =
      (Inr (Some j), emit (Write r) ((emit e s)\<lparr>script := tl (script (emit e s))\<rparr>))" for r e
    using assms by (intro send_request_parsed) (simp_all add: emit_simps)
  show "written (snd (test_initialize s)) = written s @ [initialize_request]"
    by (simp add: test_initialize_def a snd_check written_emit written_upd)
  show "written (snd (test_list_tools s)) = written s @ [list_tools_request]"
    by (simp add: test_list_tools_def a snd_check written_emit written_upd)
  show "written (snd (test_list_resources s)) = written s @ [list_resources_request]"
    by (simp add: test_list_resources_def a snd_check written_emit written_upd)
  show "written (snd (test_tool_execution s)) = written s @ [tool_execution_request]"
    by (simp add: test_tool_execution_def a snd_check written_emit written_upd)
qed

lemma list_resources_passes:
  assumes "server_process s \<noteq> None" and "next_reply s = ok_resources"
  shows "fst (test_list_resources s) = Inr True"
proof -
  let ?s0 = "emit (Print TestingResourcesListing) s"
  let ?j = "JObj [(''result'', JObj [(''resources'', JArr [JStr ''r''])])]"
  have "send_request list_resources_request ?s0 =
      (Inr (Some ?j), emit (Write list_resources_request) (?s0\<lparr>script := tl (script ?s0)\<rparr>))"
    using assms by (intro send_request_parsed) (simp_all add: emit_simps ok_resources_def)
  moreover have "fst (check_resources (Some ?j) s') = Inr True" for s'
    by (simp add: check_resources_def no_result_def)
  ultimately show ?thesis
    by (simp add: test_list_resources_def)
qed

lemma tool_execution_passes:
  assumes "server_process s \<noteq> None" and "next_reply s = ok_call"
  shows "fst (test_tool_execution s) = Inr True"
proof -
  let ?s0 = "emit (Print TestingToolExecution) s"
  let ?j = "JObj [(''result'', JObj [(''content'', JArr [JStr ''c''])])]"
  have "send_request tool_execution_request ?s0 =
      (Inr (Some ?j), emit (Write tool_execution_request) (?s0\<lparr>script := tl (script ?s0)\<rparr>))"
    using assms by (intro send_request_parsed) (simp_all add: emit_simps ok_call_def)
  moreover have "fst (check_tool_execution (Some ?j) s') = Inr True" for s'
    by (simp add: check_tool_execution_def no_result_def)
  ultimately show ?thesis
    by (simp add: test_tool_execution_def)
qed

lemma good_run_tests:
  assumes p1: "server_process s1 \<noteq> None"
    and c1: "script s1 = [ok_initialize, ok_tools, ok_resources, ok_call]"
  shows "fst (run_tests tests 0 s1) = Inr 4"
    and "written (snd (run_tests tests 0 s1)) = written s1 @ requests"
    and "quiet s1 \<Longrightarrow> quiet (snd (run_tests tests 0 s1))"
proof -
  have n1: "next_reply s1 = ok_initialize" using c1 by (simp add: next_reply_def)
  obtain s2 where h1: "test_initialize s1 = (Inr True, s2)"
    using initialize_passes[OF p1 n1] by (cases "test_initialize s1") auto
  have p2: "server_process s2 \<noteq> None" using sp_steps(1)[of s1] p1 h1 by simp
  have c2: "script s2 = [ok_tools, ok_resources, ok_call]"
    using script_steps(1)[OF p1] c1 h1 by simp
  have n2: "next_reply s2 = ok_tools" using c2 by (simp add: next_reply_def)
  obtain s3 where h2: "test_list_tools s2 = (Inr True, s3)"
    using list_tools_passes[OF p2 n2] by (cases "test_list_tools s2") auto
  have p3: "server_process s3 \<noteq> None" using sp_steps(2)[of s2] p2 h2 by simp
  have c3: "script s3 = [ok_resources, ok_call]"
    using script_steps(2)[OF p2] c2 h2 by simp
  have n3: "next_reply s3 = ok_resources" using c3 by (simp add: next_reply_def)
  obtain s4 where h3: "test_list_resources s3 = (Inr True, s4)"
    using list_resources_passes[OF p3 n3] by (cases "test_list_resources s3") auto
  have p4: "server_process s4 \<noteq> None" using sp_steps(3)[of s3] p3 h3 by simp
  have c4: "script s4 = [ok_call]"
    using script_steps(3)[OF p3] c3 h3 by simp
  have n4: "next_reply s4 = ok_call" using c4 by (simp add: next_reply_def)
  obtain s5 where h4: "test_tool_execution s4 = (Inr True, s5)"
    using tool_execution_passes[OF p4 n4] by (cases "test_tool_execution s4") auto
  have r: "run_tests tests 0 s1 = (Inr 4, s5)"
    using h1 h2 h3 h4 by (simp add: tests_def)
  show "fst (run_tests tests 0 s1) = Inr 4" using r by simp
  have "written s5 = written s1 @ requests"
    using written_step_parsed(1)[OF p1 n1[unfolded ok_initialize_def]]
      written_step_parsed(2)[OF p2 n2[unfolded ok_tools_def]]
      written_step_parsed(3)[OF p3 n3[unfolded ok_resources_def]]
      written_step_parsed(4)[OF p4 n4[unfolded ok_call_def]] h1 h2 h3 h4
    by (simp add: requests_def)
  then show "written (snd (run_tests tests 0 s1)) = written s1 @ requests" using r by simp
  have "quiet s5" if q1: "quiet s1"
    using quiet_steps(1)[OF q1] h1 quiet_steps(2)[of s2] h2 quiet_steps(3)[of s3] h3
      quiet_steps(4)[of s4] h4
    by simp
  then show "quiet s1 \<Longrightarrow> quiet (snd (run_tests tests 0 s1))" using r by simp
qed

lemma good_run_main:
  "fst (main [prog] good_launch [ok_initialize, ok_tools, ok_resources, ok_call]) = 0"
  "written (snd (main [prog] good_launch [ok_initialize, ok_tools, ok_resources, ok_call]))
     = requests"
proof -
  let ?s = "init_state [ok_initialize, ok_tools, ok_resources, ok_call]"
  let ?s1 = "emit (Print ServerStarted) (emit Popen
        ((emit (Print Rule) (emit (Print StartingTests) ?s))
           \<lparr>server_process :=
                Some \<lparr>status = Running, obeys_term = True, stderr_text = [],
                      sigint_in_wait = False\<rparr>\<rparr>))"
  have p1: "server_process ?s1 \<noteq> None" by (simp add: emit_simps)
  have q1: "quiet ?s1" by (simp add: quiet_def emit_simps)
  have c1: "script ?s1 = [ok_initialize, ok_tools, ok_resources, ok_call]"
    by (simp add: emit_simps init_state_def)
  have w1: "written ?s1 = []"
    by (simp add: written_emit written_upd) (simp add: written_def init_state_def)
  obtain s5 where r: "run_tests tests 0 ?s1 = (Inr 4, s5)"
    using good_run_tests(1)[OF p1 c1] by (cases "run_tests tests 0 ?s1") auto
  have w5: "written s5 = requests"
    using good_run_tests(2)[OF p1 c1] r w1 by simp
  have len: "length tests = 4" by (simp add: tests_def)
  have body: "run_body tests ?s1 = (Inr True, emit (Print AllTestsPassed)
      (emit (Print (TestResults 4 4)) (emit (Print Rule) s5)))"
    using r by (simp add: run_body_def Let_def len)
  let ?x = "emit (Print AllTestsPassed) (emit (Print (TestResults 4 4)) (emit (Print Rule) s5))"
  have q5: "quiet s5" using good_run_tests(3)[OF p1 c1 q1] r by simp
  then have "quiet ?x" by (simp add: quiet_emit)
  then have "fst (stop_server ?x) = Inr ()" by (rule stop_server_returns)
  then have all: "run_all_tests good_launch ?s = (Inr True, snd (stop_server ?x))"
    using body by (cases "stop_server ?x") (simp add: run_all_tests_def start_server_good)
  show "fst (main [prog] good_launch [ok_initialize, ok_tools, ok_resources, ok_call]) = 0"
    using all by (simp add: main_def Let_def)
  show "written (snd (main [prog] good_launch [ok_initialize, ok_tools, ok_resources, ok_call]))
     = requests"
    using all w5 by (simp add: main_def Let_def written_stop_server written_emit)
qed

text \<open>
  Claim C9. With \<^verbatim>\<open>--help\<close> as first argument \<^verbatim>\<open>main\<close> prints the usage lines and
  does nothing else: no child is spawned, no request is written. Without arguments
  \<^verbatim>\<open>main\<close> runs \<^verbatim>\<open>run_all_tests\<close> and exits with its outcome; against a server that
  answers all four requests well, the four requests are written in order.
\<close>

theorem help_flag_no_server_interaction:
  "main (prog # ''--help'' # rest) l rs = (0, (init_state rs)\<lparr>trace := usage\<rparr>) \<and>
   usage \<noteq> [] \<and> Popen \<notin> set usage \<and> written ((init_state rs)\<lparr>trace := usage\<rparr>) = [] \<and>
   main [prog] l rs =
     (case run_all_tests l (init_state rs) of
        (Inl (SystemExit n), s1) \<Rightarrow> (n, s1)
      | (Inl e, s1) \<Rightarrow> (1, s1)
      | (Inr success, s1) \<Rightarrow> ((if success then 0 else 1), s1)) \<and>
   written (snd (main [prog] good_launch [ok_initialize, ok_tools, ok_resources, ok_call]))
     = [initialize_request, list_tools_request, list_resources_request, tool_execution_request]"
proof -
  have u: "usage = [Print (UsageLine 0), Print (UsageLine 1), Print (UsageLine 2),
      Print (UsageLine 3), Print (UsageLine 4), Print (UsageLine 5), Print (UsageLine 6)]"
    by (simp add: usage_def upt_rec)
  have a: "main (prog # ''--help'' # rest) l rs = (0, (init_state rs)\<lparr>trace := usage\<rparr>)"
    by (simp add: main_def Let_def init_state_def)
  have b: "written ((init_state rs)\<lparr>trace := usage\<rparr>) = []"
    by (simp add: written_def u)
  have c: "main [prog] l rs =
     (case run_all_tests l (init_state rs) of
        (Inl (SystemExit n), s1) \<Rightarrow> (n, s1)
      | (Inl e, s1) \<Rightarrow> (1, s1)
      | (Inr success, s1) \<Rightarrow> ((if success then 0 else 1), s1))"
    by (simp add: main_def Let_def)
  show ?thesis
    using a b c good_run_main(2)[of prog] by (simp add: u requests_def)
qed

theorem help_flag_no_server_interaction_witness:
  "main [''comprehensive-test.py'', ''--help''] good_launch [] = (0, (init_state [])\<lparr>trace := usage\<rparr>) \<and>
   Popen \<notin> set usage \<and>
   written (snd (main [''comprehensive-test.py''] good_launch
      [ok_initialize, ok_tools, ok_resources, ok_call]))
     = [initialize_request, list_tools_request, list_resources_request, tool_execution_request]"
  using help_flag_no_server_interaction[of "''comprehensive-test.py''" "[]" good_launch "[]"]
  by blast

section \<open>Starting the server\<close>

text \<open>
  Claim C8 says that \<^verbatim>\<open>start_server\<close> reports failure exactly when the spawned process
  has exited by the end of the settle interval. That is not so: when the JAR file does not
  exist, \<^verbatim>\<open>start_server\<close> reports failure without spawning anything.
\<close>

theorem start_failure_only_on_early_exit_counterexample:
  "\<not> (fst (start_server (good_launch\<lparr>jar_exists := False\<rparr>) (init_state [])) = Inr False
       \<longleftrightarrow> Popen \<in> set (trace (snd (start_server (good_launch\<lparr>jar_exists := False\<rparr>)
                                         (init_state []))))
            \<and> exited_early (good_launch\<lparr>jar_exists := False\<rparr>))"
  by (simp add: start_server_def good_launch_def init_state_def emit_def)

text \<open>
  Claim C8, amended. \<^verbatim>\<open>start_server\<close> reports failure exactly when the JAR file does
  not exist, or spawning the process raises, or the spawned process has exited by the end of
  the settle interval (the sleep not having been interrupted); in the last case the error
  stream of the child is read and printed.
\<close>

theorem start_server_failure_conditions:
  "(fst (start_server l s) = Inr False \<longleftrightarrow>
      \<not> jar_exists l \<or> popen_raises l \<or> (\<not> sleep_interrupted l \<and> exited_early l)) \<and>
   (jar_exists l \<and> \<not> popen_raises l \<and> \<not> sleep_interrupted l \<and> exited_early l \<longrightarrow>
      start_server l s =
        (Inr False,
         emit (Print (ServerFailedToStart (child_stderr l)))
           (emit Popen
              (s\<lparr>server_process :=
                   Some \<lparr>status = Exited, obeys_term = child_obeys_term l,
                         stderr_text = child_stderr l,
                         sigint_in_wait = wait_interrupted l\<rparr>\<rparr>))))"
  by (auto simp: start_server_def Let_def signal_handler_eq split: if_splits)

theorem start_server_failure_conditions_witness:
  "fst (start_server (good_launch\<lparr>exited_early := True, child_stderr := ''boom''\<rparr>)
          (init_state [])) = Inr False \<and>
   start_server (good_launch\<lparr>exited_early := True, child_stderr := ''boom''\<rparr>) (init_state []) =
     (Inr False,
      emit (Print (ServerFailedToStart ''boom''))
        (emit Popen
           ((init_state [])\<lparr>server_process :=
                Some \<lparr>status = Exited, obeys_term = True, stderr_text = ''boom'',
                      sigint_in_wait = False\<rparr>\<rparr>)))"
proof -
  let ?l = "good_launch\<lparr>exited_early := True, child_stderr := ''boom''\<rparr>"
  have h: "jar_exists ?l \<and> \<not> popen_raises ?l \<and> \<not> sleep_interrupted ?l \<and> exited_early ?l"
    by (simp add: good_launch_def)
  have v: "child_stderr ?l = ''boom''" "child_obeys_term ?l = True"
    "wait_interrupted ?l = False"
    by (simp_all add: good_launch_def)
  note r = start_server_failure_conditions[of ?l "init_state []"]
  from r h have a: "fst (start_server ?l (init_state [])) = Inr False" by blast
  from r h have "start_server ?l (init_state []) =
        (Inr False,
         emit (Print (ServerFailedToStart (child_stderr ?l)))
           (emit Popen
              ((init_state [])\<lparr>server_process :=
                   Some \<lparr>status = Exited, obeys_term = child_obeys_term ?l,
                         stderr_text = child_stderr ?l,
                         sigint_in_wait = wait_interrupted ?l\<rparr>\<rparr>)))" by blast
  then show ?thesis using a unfolding v by simp
qed

section \<open>What is validated first on a response\<close>

text \<open>
  Claim C2 says that the first validation on every response is that exactly one of
  \<^verbatim>\<open>result\<close> and \<^verbatim>\<open>error\<close> is present, and that a response with both or with neither is
  rejected before any other check. It is not so: the harness never looks at \<^verbatim>\<open>error\<close>, and
  the initialize step passes on a response that carries both; and a response that is a
  number carries neither and is not rejected, the membership test on it raises
  \<^verbatim>\<open>TypeError\<close>.
\<close>

theorem result_error_exclusivity_counterexample:
  "py_contains ''result'' both_fields = Inr True \<and>
   py_contains ''error'' both_fields = Inr True \<and>
   fst (test_initialize (running [Parsed both_fields])) = Inr True \<and>
   fst (test_initialize (running [Parsed (JNum 5)])) = Inl TypeError"
  by (simp add: both_fields_def test_initialize_def send_request_def running_def next_reply_def
      emit_def check_initialize_def Let_def)

lemma check_same_result:
  assumes "map_of kvs ''result'' = Some v" and "map_of kvs' ''result'' = Some v"
  shows "check_initialize (Some (JObj kvs)) s = check_initialize (Some (JObj kvs')) s"
    and "check_tools (Some (JObj kvs)) s = check_tools (Some (JObj kvs')) s"
    and "check_resources (Some (JObj kvs)) s = check_resources (Some (JObj kvs')) s"
    and "check_tool_execution (Some (JObj kvs)) s = check_tool_execution (Some (JObj kvs')) s"
proof -
  have ne: "kvs \<noteq> []" "kvs' \<noteq> []" using assms by auto
  show "check_initialize (Some (JObj kvs)) s = check_initialize (Some (JObj kvs')) s"
    using assms ne by (simp add: check_initialize_def)
  show "check_tools (Some (JObj kvs)) s = check_tools (Some (JObj kvs')) s"
    using assms by (simp add: check_tools_def obj_with_result)
  show "check_resources (Some (JObj kvs)) s = check_resources (Some (JObj kvs')) s"
    using assms by (simp add: check_resources_def obj_with_result)
  show "check_tool_execution (Some (JObj kvs)) s = check_tool_execution (Some (JObj kvs')) s"
    using assms by (simp add: check_tool_execution_def obj_with_result)
qed

lemma check_without_result:
  assumes "map_of kvs ''result'' = None"
  shows "check_initialize (Some (JObj kvs)) s =
           (Inr False,
            emit (Print (if kvs = [] then NoResponseToInitialize
                         else InitializeFailed (JObj kvs))) s)"
    and "check_tools (Some (JObj kvs)) s = (Inr False, emit (Print FailedToListTools) s)"
    and "check_resources (Some (JObj kvs)) s = (Inr False, emit (Print FailedToListResources) s)"
    and "check_tool_execution (Some (JObj kvs)) s
           = (Inr False, emit (Print FailedToExecuteTool) s)"
  using assms
  by (simp_all add: check_initialize_def check_tools_def check_resources_def
      check_tool_execution_def no_result_def)

lemma step_is_check:
  assumes "server_process s \<noteq> None" and "next_reply s = Parsed j"
  shows "test_initialize s
           = check_initialize (Some j) (sent TestingInitialization initialize_request s)"
    and "test_list_tools s = check_tools (Some j) (sent TestingToolsListing list_tools_request s)"
    and "test_list_resources s
           = check_resources (Some j) (sent TestingResourcesListing list_resources_request s)"
    and "test_tool_execution s
           = check_tool_execution (Some j) (sent TestingToolExecution tool_execution_request s)"
proof -
  have a: "send_request r (emit (Print m) s) = (Inr (Some j), sent m r s)" for r m
    unfolding sent_def using assms
    by (subst send_request_parsed[where j = j]) (simp_all add: emit_simps)
  show "test_initialize s
           = check_initialize (Some j) (sent TestingInitialization initialize_request s)"
    by (simp add: test_initialize_def a)
  show "test_list_tools s = check_tools (Some j) (sent TestingToolsListing list_tools_request s)"
    by (simp add: test_list_tools_def a)
  show "test_list_resources s
           = check_resources (Some j) (sent TestingResourcesListing list_resources_request s)"
    by (simp add: test_list_resources_def a)
  show "test_tool_execution s
           = check_tool_execution (Some j) (sent TestingToolExecution tool_execution_request s)"
    by (simp add: test_tool_execution_def a)
qed

lemma with_reply_simps:
  "server_process (with_reply j s) = server_process s"
  "next_reply (with_reply j s) = Parsed j"
  "sent m r (with_reply j s) = sent m r (with_reply j' s)"
  by (simp_all add: with_reply_def next_reply_def sent_def emit_def)

text \<open>
  Claim C2, amended. On a response that is an object the steps validate first that it is
  not empty and that it has a \<^verbatim>\<open>result\<close> field, and they look at no other field. Two
  response objects with the same \<^verbatim>\<open>result\<close> entry are treated alike by every step, in
  verdict and in everything printed, whatever else they carry (an \<^verbatim>\<open>error\<close> field in
  particular). A response object without \<^verbatim>\<open>result\<close>, with or without \<^verbatim>\<open>error\<close>, makes
  every step fail with its first failure message, before any other shape check.
\<close>

theorem only_result_field_is_examined:
  assumes "server_process s \<noteq> None"
  shows "(map_of kvs ''result'' = Some v \<and> map_of kvs' ''result'' = Some v \<longrightarrow>
            (\<forall>t \<in> set tests. t (with_reply (JObj kvs) s) = t (with_reply (JObj kvs') s))) \<and>
         (map_of kvs ''result'' = None \<longrightarrow>
            test_initialize (with_reply (JObj kvs) s) =
              (Inr False,
               emit (Print (if kvs = [] then NoResponseToInitialize
                            else InitializeFailed (JObj kvs)))
                 (sent TestingInitialization initialize_request (with_reply (JObj kvs) s))) \<and>
            test_list_tools (with_reply (JObj kvs) s) =
              (Inr False,
               emit (Print FailedToListTools)
                 (sent TestingToolsListing list_tools_request (with_reply (JObj kvs) s))) \<and>
            test_list_resources (with_reply (JObj kvs) s) =
              (Inr False,
               emit (Print FailedToListResources)
                 (sent TestingResourcesListing list_resources_request
                    (with_reply (JObj kvs) s))) \<and>
            test_tool_execution (with_reply (JObj kvs) s) =
              (Inr False,
               emit (Print FailedToExecuteTool)
                 (sent TestingToolExecution tool_execution_request
                    (with_reply (JObj kvs) s))))"
proof -
  have p: "server_process (with_reply j s) \<noteq> None" for j
    using assms by (simp add: with_reply_simps)
  note a = step_is_check[OF p with_reply_simps(2)]
  have same: "\<forall>t \<in> set tests. t (with_reply (JObj kvs) s) = t (with_reply (JObj kvs') s)"
    if r: "map_of kvs ''result'' = Some v" "map_of kvs' ''result'' = Some v"
  proof -
    note c = check_same_result[OF r]
    note w = with_reply_simps(3)[of _ _ "JObj kvs" s "JObj kvs'"]
    have "test_initialize (with_reply (JObj kvs) s) = test_initialize (with_reply (JObj kvs') s)"
      by (simp add: a(1) c(1) w)
    moreover have "test_list_tools (with_reply (JObj kvs) s)
        = test_list_tools (with_reply (JObj kvs') s)"
      by (simp add: a(2) c(2) w)
    moreover have "test_list_resources (with_reply (JObj kvs) s)
        = test_list_resources (with_reply (JObj kvs') s)"
      by (simp add: a(3) c(3) w)
    moreover have "test_tool_execution (with_reply (JObj kvs) s)
        = test_tool_execution (with_reply (JObj kvs') s)"
      by (simp add: a(4) c(4) w)
    ultimately show ?thesis by (simp add: tests_def)
  qed
  have none: "test_initialize (with_reply (JObj kvs) s) =
              (Inr False,
               emit (Print (if kvs = [] then NoResponseToInitialize
                            else InitializeFailed (JObj kvs)))
                 (sent TestingInitialization initialize_request (with_reply (JObj kvs) s))) \<and>
            test_list_tools (with_reply (JObj kvs) s) =
              (Inr False,
               emit (Print FailedToListTools)
                 (sent TestingToolsListing list_tools_request (with_reply (JObj kvs) s))) \<and>
            test_list_resources (with_reply (JObj kvs) s) =
              (Inr False,
               emit (Print FailedToListResources)
                 (sent TestingResourcesListing list_resources_request
                    (with_reply (JObj kvs) s))) \<and>
            test_tool_execution (with_reply (JObj kvs) s) =
              (Inr False,
               emit (Print FailedToExecuteTool)
                 (sent TestingToolExecution tool_execution_request
                    (with_reply (JObj kvs) s)))"
    if n: "map_of kvs ''result'' = None"
    using check_without_result[OF n] by (simp add: a)
  show ?thesis using same none by blast
qed

theorem only_result_field_is_examined_witness:
  "test_initialize (with_reply both_fields (running []))
     = test_initialize
         (with_reply (JObj [(''result'', JObj [(''capabilities'', JObj [])])]) (running [])) \<and>
   test_list_tools (with_reply both_fields (running []))
     = test_list_tools
         (with_reply (JObj [(''result'', JObj [(''capabilities'', JObj [])])]) (running [])) \<and>
   test_initialize (with_reply (JObj [(''id'', JNum 1)]) (running [])) =
     (Inr False,
      emit (Print (InitializeFailed (JObj [(''id'', JNum 1)])))
        (sent TestingInitialization initialize_request
           (with_reply (JObj [(''id'', JNum 1)]) (running [])))) \<and>
   test_list_tools (with_reply (JObj [(''id'', JNum 1)]) (running [])) =
     (Inr False,
      emit (Print FailedToListTools)
        (sent TestingToolsListing list_tools_request
           (with_reply (JObj [(''id'', JNum 1)]) (running []))))"
proof -
  let ?kb = "[(''result'', JObj [(''capabilities'', JObj [])]),
              (''error'', JObj [(''code'', JNum (-32603)), (''message'', JStr ''Internal error'')])]"
  let ?kr = "[(''result'', JObj [(''capabilities'', JObj [])])]"
  let ?kn = "[(''id'', JNum 1)]"
  let ?v = "JObj [(''capabilities'', JObj [])]"
  have p: "server_process (running []) \<noteq> None" by (simp add: running_def)
  have e1: "map_of ?kb ''result'' = Some ?v \<and> map_of ?kr ''result'' = Some ?v" by simp
  have e3: "map_of ?kn ''result'' = None" by simp
  from only_result_field_is_examined[OF p, of ?kb ?v ?kr] e1
  have a: "\<forall>t \<in> set tests. t (with_reply (JObj ?kb) (running []))
        = t (with_reply (JObj ?kr) (running []))" by blast
  then have a': "test_initialize (with_reply both_fields (running []))
        = test_initialize (with_reply (JObj ?kr) (running []))"
      "test_list_tools (with_reply both_fields (running []))
        = test_list_tools (with_reply (JObj ?kr) (running []))"
    by (simp_all add: tests_def both_fields_def)
  from only_result_field_is_examined[OF p, of ?kn ?v ?kn] e3
  have b: "test_initialize (with_reply (JObj ?kn) (running [])) =
     (Inr False,
      emit (Print (if ?kn = [] then NoResponseToInitialize else InitializeFailed (JObj ?kn)))
        (sent TestingInitialization initialize_request (with_reply (JObj ?kn) (running []))))"
    "test_list_tools (with_reply (JObj ?kn) (running [])) =
     (Inr False,
      emit (Print FailedToListTools)
        (sent TestingToolsListing list_tools_request (with_reply (JObj ?kn) (running []))))"
    by blast+
  from b(1) have b1: "test_initialize (with_reply (JObj ?kn) (running [])) =
     (Inr False,
      emit (Print (InitializeFailed (JObj ?kn)))
        (sent TestingInitialization initialize_request (with_reply (JObj ?kn) (running []))))"
    by simp
  show ?thesis using a' b1 b(2) by blast
qed

section \<open>The exit status\<close>

lemma run_tests_bound: "fst (run_tests ts k s) = Inr m \<Longrightarrow> k \<le> m \<and> m \<le> k + length ts"
proof (induction ts arbitrary: k s)
  case Nil
  then show ?case by simp
next
  case (Cons t ts)
  obtain r s1 where t: "t s = (r, s1)" by (cases "t s")
  show ?case
  proof (cases r)
    case (Inl e)
    with Cons.prems t show ?thesis by simp
  next
    case (Inr b)
    show ?thesis
    proof (cases b)
      case True
      with Cons.prems t Inr have "fst (run_tests ts (k + 1) s1) = Inr m" by simp
      from Cons.IH[OF this] show ?thesis by simp
    next
      case False
      with Cons.prems t Inr show ?thesis by simp
    qed
  qed
qed

lemma run_tests_passes: "(fst (run_tests ts k s) = Inr (k + length ts)) = passes ts s"
proof (induction ts arbitrary: k s)
  case Nil
  then show ?case by simp
next
  case (Cons t ts)
  obtain r s1 where t: "t s = (r, s1)" by (cases "t s")
  show ?case
  proof (cases r)
    case (Inl e)
    with t show ?thesis by simp
  next
    case (Inr b)
    show ?thesis
    proof (cases b)
      case True
      with t Inr Cons.IH[of "k + 1" s1] show ?thesis by simp
    next
      case False
      with t Inr show ?thesis by simp
    qed
  qed
qed

lemma py_no_exit:
  "py_contains k j \<noteq> Inl (SystemExit n)"
  "py_getitem j k \<noteq> Inl (SystemExit n)"
  "py_get j k d \<noteq> Inl (SystemExit n)"
  "py_len j \<noteq> Inl (SystemExit n)"
  "py_iter j \<noteq> Inl (SystemExit n)"
  by (cases j; simp split: option.splits)+

lemma names_of_no_exit: "names_of ts \<noteq> Inl (SystemExit n)"
  by (induction ts) (auto simp: py_no_exit split: sum.splits)

lemma no_result_no_exit: "no_result j \<noteq> Inl (SystemExit n)"
  by (auto simp: no_result_def py_no_exit split: sum.splits)

lemma check_no_exit:
  "fst (check_initialize x s) \<noteq> Inl (SystemExit n)"
  "fst (check_tools x s) \<noteq> Inl (SystemExit n)"
  "fst (check_resources x s) \<noteq> Inl (SystemExit n)"
  "fst (check_tool_execution x s) \<noteq> Inl (SystemExit n)"
  by (auto simp: check_initialize_def check_tools_def check_resources_def
      check_tool_execution_def Let_def py_no_exit names_of_no_exit no_result_no_exit
      split: option.splits sum.splits bool.splits)

lemma send_request_exit: "fst (send_request r s) = Inl (SystemExit n) \<Longrightarrow> n = 1"
  by (auto simp: send_request_def Let_def signal_handler_eq
      split: option.splits reply.splits)

lemma steps_exit:
  assumes "t \<in> set tests" and "fst (t s) = Inl (SystemExit n)"
  shows "n = 1"
proof -
  have a: "n = 1" if "fst (case send_request r s0 of (Inl e, s1) \<Rightarrow> (Inl e, s1)
      | (Inr response, s1) \<Rightarrow> chk response s1) = Inl (SystemExit n)"
      and "\<And>x s. fst (chk x s) \<noteq> Inl (SystemExit n)"
    for r s0 and chk :: "json option \<Rightarrow> state \<Rightarrow> (exn + bool) \<times> state"
    using that send_request_exit[of r s0 n]
    by (cases "send_request r s0") (auto split: sum.splits)
  from assms(1) consider "t = test_initialize" | "t = test_list_tools"
    | "t = test_list_resources" | "t = test_tool_execution" by (auto simp: tests_def)
  then show ?thesis
  proof cases
    case 1
    with assms(2) show ?thesis
      unfolding test_initialize_def by (intro a[where chk = check_initialize]) (auto simp: check_no_exit)
  next
    case 2
    with assms(2) show ?thesis
      unfolding test_list_tools_def by (intro a[where chk = check_tools]) (auto simp: check_no_exit)
  next
    case 3
    with assms(2) show ?thesis
      unfolding test_list_resources_def by (intro a[where chk = check_resources]) (auto simp: check_no_exit)
  next
    case 4
    with assms(2) show ?thesis
      unfolding test_tool_execution_def
      by (intro a[where chk = check_tool_execution]) (auto simp: check_no_exit)
  qed
qed

lemma run_tests_exit:
  "set ts \<subseteq> set tests \<Longrightarrow> fst (run_tests ts k s) = Inl (SystemExit n) \<Longrightarrow> n = 1"
proof (induction ts arbitrary: k s)
  case Nil
  then show ?case by simp
next
  case (Cons t ts)
  obtain r s1 where t: "t s = (r, s1)" by (cases "t s")
  show ?case
  proof (cases r)
    case (Inl e)
    with Cons.prems t steps_exit[of t s n] show ?thesis by simp
  next
    case (Inr b)
    with Cons.prems t Cons.IH[of "k + 1" s1] show ?thesis by (cases b) simp_all
  qed
qed

lemma run_body_exit: "fst (run_body tests s) = Inl (SystemExit n) \<Longrightarrow> n = 1"
  using run_tests_exit[of tests 0 s n]
  by (cases "run_tests tests 0 s") (auto simp: run_body_def Let_def split: sum.splits if_splits)

lemma start_server_exit: "fst (start_server l s) = Inl (SystemExit n) \<Longrightarrow> n = 1"
  by (auto simp: start_server_def Let_def signal_handler_eq split: if_splits)

lemma run_body_True:
  "(fst (run_body tests s) = Inr True) = passes tests s"
proof -
  obtain r s1 where rt: "run_tests tests 0 s = (r, s1)" by (cases "run_tests tests 0 s")
  show ?thesis
  proof (cases r)
    case (Inl e)
    with rt run_tests_passes[of tests 0 s] show ?thesis by (simp add: run_body_def)
  next
    case (Inr m)
    with rt run_tests_passes[of tests 0 s] show ?thesis
      by (auto simp: run_body_def Let_def)
  qed
qed

lemma untouched_refl: "untouched s s"
  by (simp add: untouched_def)

lemma untouched_trans: "untouched s s' \<Longrightarrow> untouched s' s'' \<Longrightarrow> untouched s s''"
  by (simp add: untouched_def)

lemma untouched_send_request:
  "fst (send_request r s) = Inr x \<Longrightarrow> untouched s (snd (send_request r s))"
  by (auto simp: send_request_def Let_def untouched_def interrupted_def emit_def
      signal_handler_eq split: option.splits reply.splits)

lemma untouched_check:
  "untouched s (snd (check_initialize x s))"
  "untouched s (snd (check_tools x s))"
  "untouched s (snd (check_resources x s))"
  "untouched s (snd (check_tool_execution x s))"
  by (simp_all add: check_initialize_def check_tools_def check_resources_def
      check_tool_execution_def untouched_def interrupted_def emit_def Let_def
      split: option.splits sum.splits bool.splits)

lemma untouched_steps:
  assumes "t \<in> set tests" and "fst (t s) = Inr b"
  shows "untouched s (snd (t s))"
proof -
  have a: "untouched s (snd (case send_request r (emit (Print m) s) of
        (Inl e, s1) \<Rightarrow> (Inl e, s1) | (Inr response, s1) \<Rightarrow> chk response s1))"
    if "fst (case send_request r (emit (Print m) s) of (Inl e, s1) \<Rightarrow> (Inl e, s1)
      | (Inr response, s1) \<Rightarrow> chk response s1) = Inr b"
      and "\<And>x s. untouched s (snd (chk x s))" and "m \<noteq> TestInterrupted"
    for r m and chk :: "json option \<Rightarrow> state \<Rightarrow> (exn + bool) \<times> state"
  proof -
    obtain q s1 where sr: "send_request r (emit (Print m) s) = (q, s1)"
      by (cases "send_request r (emit (Print m) s)")
    with that(1) obtain x where q: "q = Inr x" by (cases q) auto
    have "untouched s (emit (Print m) s)"
      using that(3) by (simp add: untouched_def interrupted_def emit_def)
    moreover have "untouched (emit (Print m) s) s1"
      using untouched_send_request[of r "emit (Print m) s" x] sr q by simp
    moreover have "untouched s1 (snd (chk x s1))" by (rule that(2))
    ultimately show ?thesis using sr q by (auto intro: untouched_trans)
  qed
  have s1: "untouched s (snd (test_initialize s))" if "fst (test_initialize s) = Inr b"
    using that unfolding test_initialize_def
    by (rule a[where chk = check_initialize]) (simp_all add: untouched_check)
  have s2: "untouched s (snd (test_list_tools s))" if "fst (test_list_tools s) = Inr b"
    using that unfolding test_list_tools_def
    by (rule a[where chk = check_tools]) (simp_all add: untouched_check)
  have s3: "untouched s (snd (test_list_resources s))" if "fst (test_list_resources s) = Inr b"
    using that unfolding test_list_resources_def
    by (rule a[where chk = check_resources]) (simp_all add: untouched_check)
  have s4: "untouched s (snd (test_tool_execution s))" if "fst (test_tool_execution s) = Inr b"
    using that unfolding test_tool_execution_def
    by (rule a[where chk = check_tool_execution]) (simp_all add: untouched_check)
  from assms(1) have "t = test_initialize \<or> t = test_list_tools
    \<or> t = test_list_resources \<or> t = test_tool_execution" by (auto simp: tests_def)
  with assms(2) s1 s2 s3 s4 show ?thesis by blast
qed

lemma untouched_run_tests:
  "set ts \<subseteq> set tests \<Longrightarrow> fst (run_tests ts k s) = Inr m \<Longrightarrow>
   untouched s (snd (run_tests ts k s))"
proof (induction ts arbitrary: k s)
  case Nil
  then show ?case by (simp add: untouched_refl)
next
  case (Cons t ts)
  obtain r s1 where t: "t s = (r, s1)" by (cases "t s")
  show ?case
  proof (cases r)
    case (Inl e)
    with Cons.prems t show ?thesis by simp
  next
    case (Inr b)
    have u: "untouched s s1" using untouched_steps[of t s b] Cons.prems(1) t Inr by simp
    show ?thesis
    proof (cases b)
      case True
      with Cons.prems t Inr have "fst (run_tests ts (k + 1) s1) = Inr m" by simp
      with Cons.IH[of "k + 1" s1] Cons.prems(1)
      have "untouched s1 (snd (run_tests ts (k + 1) s1))" by simp
      with u t Inr True show ?thesis by (auto intro: untouched_trans)
    next
      case False
      with u t Inr show ?thesis by simp
    qed
  qed
qed

lemma untouched_run_body:
  assumes "fst (run_body tests s) = Inr b"
  shows "untouched s (snd (run_body tests s))"
proof -
  obtain r s1 where rt: "run_tests tests 0 s = (r, s1)" by (cases "run_tests tests 0 s")
  with assms obtain m where r: "r = Inr m"
    by (cases r) (auto simp: run_body_def)
  have "untouched s s1" using untouched_run_tests[of tests 0 s m] rt r by simp
  then show ?thesis
    using rt r by (auto simp: run_body_def Let_def untouched_def interrupted_def emit_def)
qed

lemma start_server_not_interrupted:
  "fst (start_server l s) = Inr b \<Longrightarrow> interrupted (snd (start_server l s)) = interrupted s"
  by (auto simp: start_server_def Let_def interrupted_def emit_def signal_handler_eq
      split: if_splits)

lemma main_runs:
  assumes "\<not> (length argv > 1 \<and> argv ! 1 = ''--help'')"
  shows "main argv l rs =
      (case run_all_tests l (init_state rs) of
         (Inl (SystemExit n), s1) \<Rightarrow> (n, s1)
       | (Inl e, s1) \<Rightarrow> (1, s1)
       | (Inr success, s1) \<Rightarrow> ((if success then 0 else 1), s1))"
proof -
  from assms have h: "(length argv > 1 \<and> argv ! 1 = ''--help'') = False" by blast
  show ?thesis unfolding main_def Let_def h by simp
qed

lemma run_outcome:
  "(fst (run_all_tests l (init_state rs)) = Inr True) =
     (every_step_passed l rs \<and> \<not> interrupted (snd (run_all_tests l (init_state rs))))"
  "fst (run_all_tests l (init_state rs)) = Inl (SystemExit n) \<Longrightarrow> n = 1"
proof -
  let ?s0 = "emit (Print Rule) (emit (Print StartingTests) (init_state rs))"
  have i0: "\<not> interrupted ?s0" by (simp add: interrupted_def emit_def init_state_def)
  obtain r s1 where st: "start_server l ?s0 = (r, s1)" by (cases "start_server l ?s0")
  then have st': "started l rs = (r, s1)" by (simp add: started_def)
  have both: "((fst (run_all_tests l (init_state rs)) = Inr True) =
     (every_step_passed l rs \<and> \<not> interrupted (snd (run_all_tests l (init_state rs))))) \<and>
     (fst (run_all_tests l (init_state rs)) = Inl (SystemExit n) \<longrightarrow> n = 1)"
  proof (cases r)
    case (Inl e')
    have "e' = SystemExit 1"
      using st Inl by (auto simp: start_server_def Let_def signal_handler_eq split: if_splits)
    with Inl st st' show ?thesis by (simp add: run_all_tests_def every_step_passed_def)
  next
    case (Inr b)
    show ?thesis
    proof (cases b)
      case False
      with Inr st st' show ?thesis by (simp add: run_all_tests_def every_step_passed_def)
    next
      case True
      have i1: "\<not> interrupted s1"
        using start_server_not_interrupted[of l ?s0 b] st Inr i0 by simp
      obtain rb s2 where bd: "run_body tests s1 = (rb, s2)" by (cases "run_body tests s1")
      obtain q s3 where sp: "stop_server s2 = (q, s3)" by (cases "stop_server s2")
      have ra: "run_all_tests l (init_state rs) =
          (case q of Inl e \<Rightarrow> (Inl e, s3) | Inr u \<Rightarrow> (rb, s3))"
        using st Inr True bd sp by (simp add: run_all_tests_def split: sum.splits)
      have esp: "every_step_passed l rs = (rb = Inr True)"
        using st' Inr True run_body_True[of s1] bd by (simp add: every_step_passed_def)
      show ?thesis
      proof (cases q)
        case (Inl e')
        have "e' = SystemExit 1 \<and> interrupted s3"
          using stop_server_raises[of s2 e'] sp Inl by simp
        with ra Inl show ?thesis by simp
      next
        case (Inr u)
        have i3: "interrupted s3 = interrupted s2"
          using stop_server_not_interrupted[of s2 u] sp Inr by simp
        show ?thesis
        proof (cases rb)
          case (Inl e')
          have "fst (run_all_tests l (init_state rs)) = Inl e'"
            using ra Inr Inl by simp
          moreover have "n = 1" if "e' = SystemExit n"
            using that run_body_exit[of s1 n] bd Inl by simp
          ultimately show ?thesis using esp Inl by auto
        next
          case (Inr b')
          have "untouched s1 s2" using untouched_run_body[of s1 b'] bd Inr by simp
          then have "\<not> interrupted s2" using i1 by (simp add: untouched_def)
          with i3 ra \<open>q = Inr u\<close> Inr esp show ?thesis by simp
        qed
      qed
    qed
  qed
  from both show "(fst (run_all_tests l (init_state rs)) = Inr True) =
     (every_step_passed l rs \<and> \<not> interrupted (snd (run_all_tests l (init_state rs))))"
    by blast
  from both show "fst (run_all_tests l (init_state rs)) = Inl (SystemExit n) \<Longrightarrow> n = 1"
    by blast
qed

lemma late_interrupt_run:
  "every_step_passed late_interrupt [ok_initialize, ok_tools, ok_resources, ok_call]"
  "fst (main [prog] late_interrupt [ok_initialize, ok_tools, ok_resources, ok_call]) = 1"
proof -
  let ?rs = "[ok_initialize, ok_tools, ok_resources, ok_call]"
  let ?p = "\<lparr>status = Running, obeys_term = True, stderr_text = [], sigint_in_wait = True\<rparr>"
  let ?s1 = "emit (Print ServerStarted) (emit Popen
        ((emit (Print Rule) (emit (Print StartingTests) (init_state ?rs)))
           \<lparr>server_process := Some ?p\<rparr>))"
  have st: "start_server late_interrupt
      (emit (Print Rule) (emit (Print StartingTests) (init_state ?rs))) = (Inr True, ?s1)"
    by (simp add: start_server_def late_interrupt_def good_launch_def Let_def)
  have p1: "server_process ?s1 = Some ?p" by (simp add: emit_simps)
  then have p1': "server_process ?s1 \<noteq> None" by simp
  have c1: "script ?s1 = ?rs" by (simp add: emit_simps init_state_def)
  obtain s5 where r: "run_tests tests 0 ?s1 = (Inr 4, s5)"
    using good_run_tests(1)[OF p1' c1] by (cases "run_tests tests 0 ?s1") auto
  have len: "length tests = 4" by (simp add: tests_def)
  have "passes tests ?s1" using run_tests_passes[of tests 0 ?s1] r len by simp
  then show "every_step_passed late_interrupt ?rs"
    using st by (simp add: every_step_passed_def started_def)
  have "untouched ?s1 s5" using untouched_run_tests[of tests 0 ?s1 4] r by simp
  then have p5: "server_process s5 = Some ?p" using p1 by (simp add: untouched_def)
  let ?x = "emit (Print AllTestsPassed) (emit (Print (TestResults 4 4)) (emit (Print Rule) s5))"
  have body: "run_body tests ?s1 = (Inr True, ?x)"
    using r by (simp add: run_body_def Let_def len)
  have "server_process ?x = Some ?p" using p5 by (simp add: emit_simps)
  then have "fst (stop_server ?x) = Inl (SystemExit 1)"
    by (simp add: stop_server_eq stop_raises_def)
  then have "fst (run_all_tests late_interrupt (init_state ?rs)) = Inl (SystemExit 1)"
    using st body by (cases "stop_server ?x") (simp add: run_all_tests_def)
  then show "fst (main [prog] late_interrupt ?rs) = 1"
    by (cases "run_all_tests late_interrupt (init_state ?rs)") (simp add: main_def Let_def)
qed

text \<open>
  Claim C5 says that the process exits with status 0 if and only if every test step passed.
  Both directions fail. With the help flag the process exits with status 0 and no step has
  run. And when the interrupt signal arrives while the cleanup at the end of a run waits
  for the child, \<^verbatim>\<open>SystemExit(1)\<close> replaces the value that \<^verbatim>\<open>run_all_tests\<close> was about
  to return: every step has passed and the process exits with status 1.
\<close>

theorem exit_code_counterexample:
  "fst (main [''comprehensive-test.py'', ''--help''] good_launch []) = 0 \<and>
   \<not> every_step_passed good_launch [] \<and>
   every_step_passed late_interrupt [ok_initialize, ok_tools, ok_resources, ok_call] \<and>
   fst (main [''comprehensive-test.py''] late_interrupt
          [ok_initialize, ok_tools, ok_resources, ok_call]) = 1"
proof -
  have a: "fst (main [''comprehensive-test.py'', ''--help''] good_launch []) = 0"
    by (simp add: main_def Let_def)
  have b: "\<not> every_step_passed good_launch []"
  proof -
    let ?s1 = "snd (start_server good_launch
        (emit (Print Rule) (emit (Print StartingTests) (init_state []))))"
    have st: "started good_launch [] = (Inr True, ?s1)"
      by (simp add: started_def start_server_good)
    have "next_reply ?s1 = Eof"
      by (simp add: start_server_good emit_simps next_reply_def init_state_def)
    then have "fst (test_initialize ?s1) = Inr False"
      using steps_fail_without_reply[of ?s1] by (simp add: tests_def)
    then have "\<not> passes tests ?s1"
      by (cases "test_initialize ?s1") (simp add: tests_def)
    with st show ?thesis by (simp add: every_step_passed_def)
  qed
  show ?thesis
    using a b late_interrupt_run(1) late_interrupt_run(2)[of "''comprehensive-test.py''"]
    by blast
qed

text \<open>
  Claim C5, amended. With the help flag as first argument the process exits with status 0
  and no step is run. Otherwise it exits with status 0 exactly when the server started,
  every one of the four steps passed and the interrupt handler did not run; in every other
  case (the server did not start, a step failed or raised, the run was interrupted in the
  settle interval, while waiting for a reply, or during the cleanup) it exits with status 1.
\<close>

theorem exit_code_zero_iff_all_passed:
  "(length argv > 1 \<and> argv ! 1 = ''--help'' \<longrightarrow> fst (main argv l rs) = 0) \<and>
   (\<not> (length argv > 1 \<and> argv ! 1 = ''--help'') \<longrightarrow>
      (fst (main argv l rs) = 0 \<longleftrightarrow>
         every_step_passed l rs \<and> \<not> interrupted (snd (main argv l rs))) \<and>
      (fst (main argv l rs) \<noteq> 0 \<longrightarrow> fst (main argv l rs) = 1))"
proof (intro conjI impI)
  assume "length argv > 1 \<and> argv ! 1 = ''--help''"
  then show "fst (main argv l rs) = 0" by (simp add: main_def Let_def)
next
  assume nh: "\<not> (length argv > 1 \<and> argv ! 1 = ''--help'')"
  obtain r sf where ra: "run_all_tests l (init_state rs) = (r, sf)"
    by (cases "run_all_tests l (init_state rs)")
  note m = main_runs[OF nh, of l rs]
  note o = run_outcome[of l rs]
  have code: "fst (main argv l rs) = (if r = Inr True then 0 else 1)"
  proof (cases r)
    case (Inl e)
    show ?thesis
    proof (cases e)
      case (SystemExit n)
      with o(2)[of n] ra Inl m show ?thesis by simp
    qed (use m ra Inl in simp_all)
  next
    case (Inr b)
    with m ra show ?thesis by simp
  qed
  have fin: "snd (main argv l rs) = sf"
    using m ra by (auto split: sum.splits exn.splits)
  show "(fst (main argv l rs) = 0) =
      (every_step_passed l rs \<and> \<not> interrupted (snd (main argv l rs)))"
    using code fin o(1) ra by simp
  show "fst (main argv l rs) = 1" if "fst (main argv l rs) \<noteq> 0"
    using that code by (simp split: if_splits)
qed

theorem exit_code_zero_iff_all_passed_witness:
  "fst (main [''comprehensive-test.py'', ''--help''] good_launch []) = 0 \<and>
   every_step_passed good_launch [ok_initialize, ok_tools, ok_resources, ok_call] \<and>
   \<not> interrupted (snd (main [''comprehensive-test.py''] good_launch
                        [ok_initialize, ok_tools, ok_resources, ok_call])) \<and>
   fst (main [''comprehensive-test.py''] good_launch
          [ok_initialize, ok_tools, ok_resources, ok_call]) = 0 \<and>
   fst (main [''comprehensive-test.py''] (good_launch\<lparr>jar_exists := False\<rparr>) []) = 1"
proof -
  let ?argv = "[''comprehensive-test.py'']"
  let ?flagged = "[''comprehensive-test.py'', ''--help'']"
  let ?rs = "[ok_initialize, ok_tools, ok_resources, ok_call]"
  let ?bad = "good_launch\<lparr>jar_exists := False\<rparr>"
  have hh: "length ?flagged > 1 \<and> ?flagged ! 1 = ''--help''" by simp
  have h: "\<not> (length ?argv > 1 \<and> ?argv ! 1 = ''--help'')" by simp
  have z: "fst (main ?argv good_launch ?rs) = 0" by (rule good_run_main(1))
  have f: "fst (main ?argv ?bad []) \<noteq> 0"
    by (simp add: main_def run_all_tests_def start_server_def good_launch_def Let_def)
  note a = exit_code_zero_iff_all_passed[of ?argv good_launch ?rs]
  note b = exit_code_zero_iff_all_passed[of ?argv ?bad "[]"]
  note c = exit_code_zero_iff_all_passed[of ?flagged good_launch "[]"]
  from c hh have c0: "fst (main ?flagged good_launch []) = 0" by blast
  from a h z have c1: "every_step_passed good_launch ?rs \<and>
      \<not> interrupted (snd (main ?argv good_launch ?rs))" by blast
  from b h f have c2: "fst (main ?argv ?bad []) = 1" by blast
  show ?thesis using c0 c1 z c2 by blast
qed

section \<open>Cleanup on the way out\<close>

lemma start_server_interrupted:
  "fst (start_server l s) = Inl e \<Longrightarrow> \<exists>s'. snd (start_server l s) = snd (stop_server s')"
  by (auto simp: start_server_def Let_def signal_handler_eq split: if_splits)

lemma start_server_failed_trace:
  "fst (start_server l s) = Inr False \<Longrightarrow> Stop_server \<notin> set (trace s) \<Longrightarrow>
   Stop_server \<notin> set (trace (snd (start_server l s)))"
  by (auto simp: start_server_def Let_def signal_handler_eq emit_simps split: if_splits)

lemma not_running_not_undisturbed: "\<not> child_running s \<Longrightarrow> \<not> child_undisturbed s"
  by (auto simp: child_running_def child_undisturbed_def split: option.splits)

text \<open>
  Claim C6 says that \<^verbatim>\<open>stop_server\<close> is attempted on every exit path. It is not
  attempted when the server fails to start: \<^verbatim>\<open>run_all_tests\<close> returns before its
  \<^verbatim>\<open>try\<close> block, and \<^verbatim>\<open>main\<close> exits.
\<close>

theorem stop_on_every_exit_path_counterexample:
  "fst (main [''comprehensive-test.py''] (good_launch\<lparr>exited_early := True\<rparr>) []) = 1 \<and>
   Stop_server \<notin> set (trace (snd
     (main [''comprehensive-test.py''] (good_launch\<lparr>exited_early := True\<rparr>) [])))"
  by (simp add: main_def run_all_tests_def start_server_def good_launch_def init_state_def
      emit_def Let_def)

text \<open>
  Claim C6, amended. On every exit path of a run on which \<^verbatim>\<open>start_server\<close> did not
  report failure (all steps passed, a step failed or raised, an interrupt arrived)
  \<^verbatim>\<open>stop_server\<close> is called before the harness exits. When \<^verbatim>\<open>start_server\<close> reports
  failure the harness exits without calling it, and no child is running then. On every path
  the harness leaves no child that runs without a signal pending that ends it.
\<close>

theorem stop_attempted_once_started:
  assumes "\<not> (length argv > 1 \<and> argv ! 1 = ''--help'')"
  shows "(fst (started l rs) \<noteq> Inr False \<longrightarrow> Stop_server \<in> set (trace (snd (main argv l rs)))) \<and>
         (fst (started l rs) = Inr False \<longrightarrow>
            Stop_server \<notin> set (trace (snd (main argv l rs))) \<and>
            \<not> child_running (snd (main argv l rs))) \<and>
         \<not> child_undisturbed (snd (main argv l rs))"
proof -
  let ?s0 = "emit (Print Rule) (emit (Print StartingTests) (init_state rs))"
  have t0: "Stop_server \<notin> set (trace ?s0)" by (simp add: emit_simps init_state_def)
  have c0: "\<not> child_running ?s0" by (simp add: child_running_def emit_simps init_state_def)
  obtain r s1 where st: "start_server l ?s0 = (r, s1)" by (cases "start_server l ?s0")
  then have st': "started l rs = (r, s1)" by (simp add: started_def)
  have fin: "snd (main argv l rs) = snd (run_all_tests l (init_state rs))"
    using main_runs[OF assms, of l rs]
    by (cases "run_all_tests l (init_state rs)") (auto split: sum.splits exn.splits)
  show ?thesis
  proof (cases r)
    case (Inl e)
    then obtain s' where "s1 = snd (stop_server s')"
      using start_server_interrupted[of l ?s0 e] st by auto
    moreover have "snd (run_all_tests l (init_state rs)) = s1"
      using st Inl by (simp add: run_all_tests_def)
    ultimately show ?thesis
      using fin st' Inl stop_server_keeps(4) stop_server_disturbs by simp
  next
    case (Inr b)
    show ?thesis
    proof (cases b)
      case True
      then have "snd (run_all_tests l (init_state rs))
          = snd (stop_server (snd (run_body tests s1)))"
        using st Inr
        by (cases "run_body tests s1"; cases "stop_server (snd (run_body tests s1))")
           (auto simp: run_all_tests_def split: sum.splits)
      then show ?thesis
        using fin st' Inr True stop_server_keeps(4) stop_server_disturbs by simp
    next
      case False
      then have e: "snd (run_all_tests l (init_state rs)) = s1"
        using st Inr by (simp add: run_all_tests_def)
      have "Stop_server \<notin> set (trace s1)"
        using start_server_failed_trace[of l ?s0] t0 st Inr False by simp
      moreover have "\<not> child_running s1"
        using failed_start_leaves_no_child[of ?s0 l] c0 st Inr False by simp
      ultimately show ?thesis
        using fin e st' Inr False not_running_not_undisturbed by simp
    qed
  qed
qed

theorem stop_attempted_once_started_witness:
  "\<not> (length [''comprehensive-test.py''] > 1 \<and> [''comprehensive-test.py''] ! 1 = ''--help'') \<and>
   fst (started good_launch [Eof]) \<noteq> Inr False \<and>
   Stop_server \<in> set (trace (snd (main [''comprehensive-test.py''] good_launch [Eof]))) \<and>
   fst (started (good_launch\<lparr>jar_exists := False\<rparr>) []) = Inr False \<and>
   Stop_server \<notin> set (trace (snd
     (main [''comprehensive-test.py''] (good_launch\<lparr>jar_exists := False\<rparr>) []))) \<and>
   \<not> child_running (snd
     (main [''comprehensive-test.py''] (good_launch\<lparr>jar_exists := False\<rparr>) [])) \<and>
   \<not> child_undisturbed (snd (main [''comprehensive-test.py''] good_launch [Eof]))"
proof -
  let ?argv = "[''comprehensive-test.py'']"
  let ?bad = "good_launch\<lparr>jar_exists := False\<rparr>"
  have h: "\<not> (length ?argv > 1 \<and> ?argv ! 1 = ''--help'')" by simp
  have g: "fst (started good_launch [Eof]) \<noteq> Inr False"
    by (simp add: started_def start_server_good)
  have f: "fst (started ?bad []) = Inr False"
    by (simp add: started_def start_server_def good_launch_def)
  note a = stop_attempted_once_started[OF h, of good_launch "[Eof]"]
  note b = stop_attempted_once_started[OF h, of ?bad "[]"]
  from a g have c1: "Stop_server \<in> set (trace (snd (main ?argv good_launch [Eof])))" by blast
  from b f have c2: "Stop_server \<notin> set (trace (snd (main ?argv ?bad []))) \<and>
      \<not> child_running (snd (main ?argv ?bad []))" by blast
  from a have c3: "\<not> child_undisturbed (snd (main ?argv good_launch [Eof]))" by blast
  show ?thesis using h g c1 f c2 c3 by blast
qed

end
